(* ===== verification/Axdp_Prelude.thy ===== *)
theory Axdp_Prelude
  imports Main "HOL-Library.Word" "HOL-Library.Multiset"
begin

text \<open>
  What the components share: the names of the machine integers of the source, the ways a
  Rust function can fail, the slice operations (with their panics as \<^term>\<open>None\<close>), the
  byte orders, and the generic facts on lists and words that carry the component proofs.

  Rust's \<^verbatim>\<open>usize\<close> is modelled at 64 bits (the program targets x86-64 Linux). A debug build
  checks \<^verbatim>\<open>debug_assert!\<close> and arithmetic overflow, a release build does neither: where the
  difference matters the operation takes the flag \<open>dbg\<close>.
\<close>

unbundle bit_operations_syntax

named_theorems word_nat \<open>facts that move a word computation to natural numbers\<close>
named_theorems slice_simps \<open>facts about reading and writing slices\<close>

section \<open>Machine integers\<close>

type_synonym u8 = "8 word"
type_synonym u16 = "16 word"
type_synonym u32 = "32 word"
type_synonym u64 = "64 word"
type_synonym usize = "64 word"
type_synonym i32 = "32 word"

definition saturating_sub :: "'a::len word \<Rightarrow> 'a word \<Rightarrow> 'a word" where
  "saturating_sub a b = (if a < b then 0 else a - b)"

definition count_ones :: "'a::len word \<Rightarrow> nat" where
  "count_ones w = length (filter (bit w) [0..<LENGTH('a)])"

definition is_power_of_two :: "'a::len word \<Rightarrow> bool" where
  "is_power_of_two w \<longleftrightarrow> count_ones w = 1"

text \<open>Overflow of the unsigned operations, the condition a debug build panics on.\<close>

definition add_overflows :: "'a::len word \<Rightarrow> 'a word \<Rightarrow> bool" where
  "add_overflows a b \<longleftrightarrow> 2 ^ LENGTH('a) \<le> unat a + unat b"

definition mul_overflows :: "'a::len word \<Rightarrow> 'a word \<Rightarrow> bool" where
  "mul_overflows a b \<longleftrightarrow> 2 ^ LENGTH('a) \<le> unat a * unat b"

text \<open>Rounding up to a multiple of a power of two, the way the source writes it.\<close>

definition align_up :: "'a::len word \<Rightarrow> 'a word \<Rightarrow> 'a word" where
  "align_up v a = (v + (a - 1)) AND NOT (a - 1)"

section \<open>Failures\<close>

text \<open>
  A call ends in a value, in an \<^verbatim>\<open>io::Error\<close>, in a panic, or (in \<^verbatim>\<open>unsafe\<close> code only) in
  undefined behaviour. \<^verbatim>\<open>last_os_error\<close> carries the error number the operating system left.
\<close>

datatype io_error =
    LastOsError int
  | RawOsError int
  | OtherError string
  | StorageFull
  | InvalidInput string

datatype failure = IoErr io_error | Panic string | Undefined string

type_synonym 'a io_result = "failure + 'a"

definition rbind :: "'e + 'a \<Rightarrow> ('a \<Rightarrow> 'e + 'b) \<Rightarrow> 'e + 'b" where
  "rbind r f = (case r of Inl e \<Rightarrow> Inl e | Inr a \<Rightarrow> f a)"

lemma rbind_simps [simp]:
  "rbind (Inl e) f = Inl e"
  "rbind (Inr a) f = f a"
  by (simp_all add: rbind_def)

lemma rbind_eq_Inr_iff: "rbind r f = Inr b \<longleftrightarrow> (\<exists>a. r = Inr a \<and> f a = Inr b)"
  by (cases r) auto

lemma rbind_eq_Inl_iff: "rbind r f = Inl e \<longleftrightarrow> r = Inl e \<or> (\<exists>a. r = Inr a \<and> f a = Inl e)"
  by (cases r) auto

definition io_ok :: "'e + 'a \<Rightarrow> bool" where
  "io_ok r \<longleftrightarrow> (case r of Inl _ \<Rightarrow> False | Inr _ \<Rightarrow> True)"

lemma io_ok_simps [simp]: "\<not> io_ok (Inl e)" "io_ok (Inr a)"
  by (simp_all add: io_ok_def)

section \<open>Slices\<close>

text \<open>
  \<open>subslice a b xs\<close> is \<^verbatim>\<open>&xs[a..b]\<close> and \<open>copy_at a src xs\<close> is
  \<^verbatim>\<open>xs[a..a + src.len()].copy_from_slice(src)\<close>; both are \<^term>\<open>None\<close> where Rust panics.
\<close>

definition subslice :: "nat \<Rightarrow> nat \<Rightarrow> 'a list \<Rightarrow> 'a list option" where
  "subslice a b xs = (if a \<le> b \<and> b \<le> length xs then Some (take (b - a) (drop a xs)) else None)"

definition copy_at :: "nat \<Rightarrow> 'a list \<Rightarrow> 'a list \<Rightarrow> 'a list option" where
  "copy_at a src xs =
     (if a + length src \<le> length xs
      then Some (take a xs @ src @ drop (a + length src) xs) else None)"

definition get :: "nat \<Rightarrow> 'a list \<Rightarrow> 'a option" where
  "get i xs = (if i < length xs then Some (xs ! i) else None)"

lemma copy_at_eq_Some_iff:
  "copy_at a src xs = Some ys \<longleftrightarrow>
     a + length src \<le> length xs \<and> ys = take a xs @ src @ drop (a + length src) xs"
  by (auto simp: copy_at_def)

lemma copy_at_length: "copy_at a src xs = Some ys \<Longrightarrow> length ys = length xs"
  by (auto simp: copy_at_eq_Some_iff)

lemma copy_at_fitsD: "copy_at a src xs = Some ys \<Longrightarrow> a + length src \<le> length xs \<and> length ys = length xs"
  by (simp add: copy_at_eq_Some_iff)

lemma copy_at_nth:
  assumes "copy_at a src xs = Some ys" and "i < length xs"
  shows "ys ! i = (if a \<le> i \<and> i < a + length src then src ! (i - a) else xs ! i)"
  using assms by (auto simp: copy_at_eq_Some_iff nth_append min_def)

lemma copy_at_fits: "a + length src \<le> length xs \<Longrightarrow> \<exists>ys. copy_at a src xs = Some ys"
  by (simp add: copy_at_def)

section \<open>Byte orders\<close>

text \<open>
  \<^verbatim>\<open>to_be_bytes\<close>, \<^verbatim>\<open>from_be_bytes\<close> of \<^verbatim>\<open>u16\<close>, and the little-endian readings that
  \<^verbatim>\<open>from_ne_bytes\<close>, \<^verbatim>\<open>from_le_bytes\<close> and \<^verbatim>\<open>read_unaligned\<close> amount to on x86-64.
\<close>

definition u16_to_be_bytes :: "u16 \<Rightarrow> u8 list" where
  "u16_to_be_bytes w = [ucast (drop_bit 8 w), ucast w]"

definition u16_from_be_bytes :: "u8 \<Rightarrow> u8 \<Rightarrow> u16" where
  "u16_from_be_bytes hi lo = push_bit 8 (ucast hi) OR ucast lo"

fun from_le_bytes :: "u8 list \<Rightarrow> 'a::len word" where
  "from_le_bytes [] = 0"
| "from_le_bytes (b # bs) = ucast b OR push_bit 8 (from_le_bytes bs)"

definition to_le_bytes :: "nat \<Rightarrow> 'a::len word \<Rightarrow> u8 list" where
  "to_le_bytes n w = map (\<lambda>i. ucast (drop_bit (8 * i) w)) [0..<n]"

lemma length_u16_to_be_bytes [simp]: "length (u16_to_be_bytes w) = 2"
  by (simp add: u16_to_be_bytes_def)

lemma length_to_le_bytes [simp]: "length (to_le_bytes n w) = n"
  by (simp add: to_le_bytes_def)

section \<open>Words as natural numbers\<close>

lemma unat_less_exp: "unat (w :: 'a::len word) < 2 ^ LENGTH('a)"
  by (rule unsigned_less)

lemma count_ones_card: "count_ones (w :: 'a::len word) = card {n. bit w n}"
proof -
  have "{n. bit w n} = set (filter (bit w) [0..<LENGTH('a)])"
    by (auto dest: bit_imp_le_length)
  then show ?thesis
    by (simp only: count_ones_def distinct_card [symmetric] distinct_filter distinct_upt)
qed

lemma is_power_of_two_iff:
  "is_power_of_two (w :: 'a::len word) \<longleftrightarrow> (\<exists>k < LENGTH('a). w = 2 ^ k)"
proof
  assume "is_power_of_two w"
  then obtain k where k: "{n. bit w n} = {k}"
    by (auto simp: is_power_of_two_def count_ones_card card_1_singleton_iff)
  then have "w = 2 ^ k"
    by (intro bit_eqI) (auto simp: bit_exp_iff possible_bit_def)
  moreover have "k < LENGTH('a)" using k by (auto dest: bit_imp_le_length)
  ultimately show "\<exists>k < LENGTH('a). w = 2 ^ k" by blast
next
  assume "\<exists>k < LENGTH('a). w = 2 ^ k"
  then obtain k where "k < LENGTH('a)" "w = 2 ^ k" by blast
  then have "{n. bit w n} = {k}" by (auto simp: bit_exp_iff)
  then show "is_power_of_two w" by (simp add: is_power_of_two_def count_ones_card)
qed

lemma unat_pow2 [word_nat]: "k < LENGTH('a) \<Longrightarrow> unat ((2::'a::len word) ^ k) = 2 ^ k"
proof -
  assume k: "k < LENGTH('a)"
  have "unat (of_nat (2 ^ k) :: 'a word) = 2 ^ k mod 2 ^ LENGTH('a)" by (rule unat_of_nat)
  with k show ?thesis by simp
qed

lemma pow2_nat: 
  assumes "is_power_of_two (w :: 'a::len word)"
  shows "\<exists>k < LENGTH('a). unat w = 2 ^ k \<and> w - 1 = mask k"
  using assms by (auto simp: is_power_of_two_iff unat_pow2 mask_eq_exp_minus_1)

lemma unat_and_mask [word_nat]: "unat (w AND mask k) = unat w mod 2 ^ k"
  by (metis take_bit_eq_mask take_bit_eq_mod unsigned_take_bit_eq)

lemma unat_of_nat_small [word_nat]: "n < 2 ^ LENGTH('a) \<Longrightarrow> unat (of_nat n :: 'a::len word) = n"
  by (simp add: unat_of_nat)

lemma unat_drop_bit [word_nat]: "unat (drop_bit k (w :: 'a::len word)) = unat w div 2 ^ k"
  by (metis drop_bit_eq_div unat_drop_bit_eq)

lemma unat_and_pow2_minus_1:
  assumes "is_power_of_two (s :: 'a::len word)"
  shows "unat (w AND (s - 1)) = unat w mod unat s"
  using pow2_nat [OF assms] by (auto simp: unat_and_mask)

lemma unat_and_not_mask [word_nat]: "unat (w AND NOT (mask k)) = unat w - unat w mod 2 ^ k"
proof -
  have "(w AND NOT (mask k)) + (w AND mask k) = w"
    by (simp add: disjunctive_add bit_simps flip: bit.conj_disj_distrib)
  then have "w AND NOT (mask k) = w - (w AND mask k)"
    by (metis add_diff_cancel_right')
  moreover have "(w AND mask k) \<le> w" by (rule word_and_le2)
  ultimately show ?thesis by (metis unat_sub unat_and_mask)
qed


lemma align_up_nat:
  fixes v a :: "'a::len word"
  assumes "is_power_of_two a" and "unat v + unat a \<le> 2 ^ LENGTH('a)"
  shows "unat (align_up v a) = (unat v + (unat a - 1)) div unat a * unat a"
proof -
  obtain k where k: "k < LENGTH('a)" "unat a = 2 ^ k" "a - 1 = mask k"
    using pow2_nat [OF assms(1)] by blast
  have "a \<noteq> 0" using k(2) by (metis power_not_zero unsigned_0 zero_neq_numeral)
  then have am: "unat (a - 1) = unat a - 1" by (rule unat_minus_one)
  have "unat (v + (a - 1)) = unat v + (unat a - 1)"
  proof -
    have "0 < unat a" using \<open>a \<noteq> 0\<close> by (simp add: unat_gt_0)
    then have "unat v + (unat a - 1) < 2 ^ LENGTH('a)" using assms(2) by linarith
    then show ?thesis by (simp only: unat_word_ariths am mod_less)
  qed
  then show ?thesis
    by (simp add: align_up_def k(2,3) unat_and_not_mask minus_mod_eq_div_mult)
qed

lemma round_up_nat:
  fixes n a :: nat
  assumes "0 < a"
  shows "a dvd (n + (a - 1)) div a * a" 
    and "n \<le> (n + (a - 1)) div a * a" and "(n + (a - 1)) div a * a < n + a"
proof -
  have "(n + (a - 1)) div a * a + (n + (a - 1)) mod a = n + (a - 1)" by (rule div_mult_mod_eq)
  moreover have "(n + (a - 1)) mod a < a" using assms by simp
  ultimately show "n \<le> (n + (a - 1)) div a * a" "(n + (a - 1)) div a * a < n + a" using assms by linarith+
qed simp

lemma is_power_of_two_pos: "is_power_of_two a \<Longrightarrow> 0 < unat a"
  using pow2_nat by fastforce

lemma align_up_bounds:
  fixes v a :: "'a::len word"
  assumes "is_power_of_two a" and "unat v + unat a \<le> 2 ^ LENGTH('a)"
  shows "unat a dvd unat (align_up v a)" 
    and "unat v \<le> unat (align_up v a)" and "unat (align_up v a) < unat v + unat a"
  using round_up_nat [OF is_power_of_two_pos [OF assms(1)], of "unat v"]
  by (simp_all only: align_up_nat [OF assms])

lemma unat_ucast_mod [word_nat]: "unat (ucast (w :: 'a::len word) :: 'b::len word) = unat w mod 2 ^ LENGTH('b)"
  by (simp add: unsigned_ucast_eq take_bit_eq_mod)

lemma unat_ucast_up [word_nat]:
  "LENGTH('a) \<le> LENGTH('b) \<Longrightarrow> unat (ucast (w :: 'a::len word) :: 'b::len word) = unat w"
proof -
  assume "LENGTH('a) \<le> LENGTH('b)"
  then have "(2::nat) ^ LENGTH('a) \<le> 2 ^ LENGTH('b)" by (rule power_increasing) simp
  then have "unat w < 2 ^ LENGTH('b)" by (rule order_less_le_trans [OF unsigned_less])
  then show ?thesis by (simp add: unat_ucast_mod)
qed

lemma unat_u16_from_be_bytes [word_nat]:
  "unat (u16_from_be_bytes hi lo) = 256 * unat hi + unat lo"
proof -
  have "push_bit 8 (ucast hi :: u16) OR ucast lo = push_bit 8 (ucast hi) + ucast lo"
    by (rule disjunctive_add_eq_or [symmetric]) (auto simp: bit_eq_iff bit_simps dest: bit_imp_le_length)
  moreover have "push_bit 8 (ucast hi :: u16) = 256 * ucast hi"
    by (simp add: push_bit_eq_mult)
  moreover have "unat (256 * ucast hi + ucast lo :: u16) = 256 * unat hi + unat lo"
    using unat_less_exp [of hi] unat_less_exp [of lo]
    by (simp add: unat_word_ariths unat_ucast_up mod_less)
  ultimately show ?thesis by (simp add: u16_from_be_bytes_def)
qed

lemma u16_be_bytes_roundtrip: "u16_to_be_bytes w = [hi, lo] \<Longrightarrow> u16_from_be_bytes hi lo = w"
proof -
  assume a: "u16_to_be_bytes w = [hi, lo]"
  have "u16_from_be_bytes (ucast (drop_bit 8 w)) (ucast w) = w"
    by (auto simp: u16_from_be_bytes_def bit_eq_iff bit_simps)
  with a show ?thesis by (simp add: u16_to_be_bytes_def)
qed

lemma u16_to_from_be_bytes: "u16_to_be_bytes (u16_from_be_bytes hi lo) = [hi, lo]"
  by (auto simp: u16_to_be_bytes_def u16_from_be_bytes_def bit_eq_iff bit_simps dest: bit_imp_le_length)

lemma bit_from_le_bytes:
  "bit (from_le_bytes bs :: 'a::len word) n \<longleftrightarrow>
     n < LENGTH('a) \<and> n div 8 < length bs \<and> bit (bs ! (n div 8)) (n mod 8)"
proof (induction bs arbitrary: n)
  case (Cons b bs)
  show ?case
  proof (cases "n < 8")
    case True
    then show ?thesis by (auto simp: bit_simps)
  next
    case False
    then have "n div 8 = Suc ((n - 8) div 8)" "n mod 8 = (n - 8) mod 8" by (auto simp: le_div_geq le_mod_geq)
    then show ?thesis using False by (auto simp: bit_simps Cons.IH dest: bit_imp_le_length)
  qed
qed simp

lemma from_to_le_bytes:
  assumes "LENGTH('a) = 8 * n"
  shows "from_le_bytes (to_le_bytes n w) = (w :: 'a::len word)"
proof (rule bit_word_eqI)
  fix i assume "i < LENGTH('a)"
  then have "i div 8 < n" using assms by auto
  then show "bit (from_le_bytes (to_le_bytes n w) :: 'a word) i = bit w i"
    using \<open>i < LENGTH('a)\<close> by (simp add: bit_from_le_bytes to_le_bytes_def bit_simps)
qed

lemma words_below: "{i :: 'a::len word. i < c} = of_nat ` {..<unat c}"
proof (intro set_eqI iffI)
  fix i :: "'a word" assume "i \<in> {i. i < c}"
  then have "unat i \<in> {..<unat c}" and "i = of_nat (unat i)" by (simp_all add: word_less_nat_alt)
  then show "i \<in> of_nat ` {..<unat c}" by (rule rev_image_eqI)
next
  fix i :: "'a word" assume "i \<in> of_nat ` {..<unat c}"
  then obtain n where "n < unat c" "i = of_nat n" by auto
  moreover have "n < 2 ^ LENGTH('a)"
    using \<open>n < unat c\<close> unat_less_exp [of c] by (rule order_less_trans)
  ultimately show "i \<in> {i. i < c}" by (simp add: word_less_nat_alt unat_of_nat)
qed

lemma inj_of_nat_word: "m \<le> 2 ^ LENGTH('a) \<Longrightarrow> inj_on (of_nat :: nat \<Rightarrow> 'a::len word) {..<m}"
  by (rule inj_onI) (metis lessThan_iff order_less_le_trans unat_of_nat mod_less)

lemma card_words_below: "card {i :: 'a::len word. i < c} = unat c"
  using inj_of_nat_word [of "unat c", where 'a = 'a] unat_less_exp [of c] by (simp add: words_below card_image)

end
