(* ===== verification/Net_Addr.thy ===== *)
theory Net_Addr
  imports Axdp_Prelude
begin

text \<open>
  Addresses: the standard library's \<^verbatim>\<open>Ipv4Addr\<close>, \<^verbatim>\<open>Ipv6Addr\<close> and \<^verbatim>\<open>IpAddr\<close> as far as the
  source uses them, and \<^verbatim>\<open>MacAddress\<close> of \<^verbatim>\<open>src/src/netlink.rs\<close>. Arrays of a fixed length
  are constructors with that many arguments, so the length needs no hypothesis.
\<close>

datatype ipv4_addr = Ipv4Addr u8 u8 u8 u8

datatype ipv6_addr = Ipv6Addr u16 u16 u16 u16 u16 u16 u16 u16

datatype ip_addr = V4 ipv4_addr | V6 ipv6_addr

fun octets :: "ipv4_addr \<Rightarrow> u8 list" where
  "octets (Ipv4Addr a b c d) = [a, b, c, d]"

fun ipv4_to_u32 :: "ipv4_addr \<Rightarrow> u32" where
  "ipv4_to_u32 (Ipv4Addr a b c d) =
     push_bit 24 (ucast a) OR push_bit 16 (ucast b) OR push_bit 8 (ucast c) OR ucast d"

fun segments :: "ipv6_addr \<Rightarrow> u16 list" where
  "segments (Ipv6Addr a b c d e f g h) = [a, b, c, d, e, f, g, h]"

definition ipv4_unspecified :: ipv4_addr where
  "ipv4_unspecified = Ipv4Addr 0 0 0 0"

definition ipv6_unspecified :: ipv6_addr where
  "ipv6_unspecified = Ipv6Addr 0 0 0 0 0 0 0 0"

lemma length_octets [simp]: "length (octets ip) = 4"
  by (cases ip) simp

lemma length_segments [simp]: "length (segments ip) = 8"
  by (cases ip) simp

datatype mac_address = MacAddress u8 u8 u8 u8 u8 u8

definition mac_new :: "u8 \<Rightarrow> u8 \<Rightarrow> u8 \<Rightarrow> u8 \<Rightarrow> u8 \<Rightarrow> u8 \<Rightarrow> mac_address" where
  "mac_new a b c d e f = MacAddress a b c d e f"

fun as_bytes :: "mac_address \<Rightarrow> u8 list" where
  "as_bytes (MacAddress a b c d e f) = [a, b, c, d, e, f]"

lemma length_as_bytes [simp]: "length (as_bytes m) = 6"
  by (cases m) simp

lemma as_bytes_inject: "as_bytes m = as_bytes n \<longleftrightarrow> m = n"
  by (cases m; cases n) simp

end
