(* ===== verification/Netlink.thy ===== *)
theory Netlink
  imports Net_Addr
begin

text \<open>
  \<^verbatim>\<open>src/src/netlink.rs\<close>: the client of the kernel's routing socket. Requests are built as
  bytes, answers are split into messages and attributes, and routes and neighbours are read
  from the attributes. The kernel is a parameter (\<open>netlink_sys\<close>); the numbers are those of
  the Linux netlink interface, and integers are little-endian, as on x86-64.

  Buffers are byte lists and positions natural numbers; \<^verbatim>\<open>ptr::read_unaligned\<close> past the end
  of a buffer is the failure \<^term>\<open>Undefined\<close>, an index out of range the failure \<^term>\<open>Panic\<close>.
  Every read of a fixed structure goes through \<open>read_unaligned\<close> and every range index through
  \<open>index_range\<close>, so that each of the length checks of the source decides between a value and one
  of these failures.
\<close>

section \<open>Wire format\<close>

abbreviation NLMSG_ALIGNTO :: usize where "NLMSG_ALIGNTO \<equiv> 4"
abbreviation NLA_ALIGNTO :: usize where "NLA_ALIGNTO \<equiv> 4"
abbreviation NLA_TYPE_MASK :: u16 where "NLA_TYPE_MASK \<equiv> 0x3FFF"
abbreviation NLMSG_ERROR :: u16 where "NLMSG_ERROR \<equiv> 2"
abbreviation NLMSG_DONE :: u16 where "NLMSG_DONE \<equiv> 3"
abbreviation NLM_F_REQUEST :: u16 where "NLM_F_REQUEST \<equiv> 1"
abbreviation NLM_F_MULTI :: u16 where "NLM_F_MULTI \<equiv> 2"
abbreviation NLM_F_DUMP :: u16 where "NLM_F_DUMP \<equiv> 0x300"
abbreviation RTM_NEWROUTE :: u16 where "RTM_NEWROUTE \<equiv> 24"
abbreviation RTM_GETROUTE :: u16 where "RTM_GETROUTE \<equiv> 26"
abbreviation RTM_NEWNEIGH :: u16 where "RTM_NEWNEIGH \<equiv> 28"
abbreviation RTM_GETNEIGH :: u16 where "RTM_GETNEIGH \<equiv> 30"
abbreviation RT_TABLE_MAIN :: u8 where "RT_TABLE_MAIN \<equiv> 254"
abbreviation NDA_DST :: u16 where "NDA_DST \<equiv> 1"
abbreviation NDA_LLADDR :: u16 where "NDA_LLADDR \<equiv> 2"
abbreviation RTA_DST :: u16 where "RTA_DST \<equiv> 1"
abbreviation RTA_IIF :: u16 where "RTA_IIF \<equiv> 3"
abbreviation RTA_OIF :: u16 where "RTA_OIF \<equiv> 4"
abbreviation RTA_GATEWAY :: u16 where "RTA_GATEWAY \<equiv> 5"
abbreviation RTA_PRIORITY :: u16 where "RTA_PRIORITY \<equiv> 6"
abbreviation RTA_PREFSRC :: u16 where "RTA_PREFSRC \<equiv> 7"
abbreviation RTA_TABLE :: u16 where "RTA_TABLE \<equiv> 15"
abbreviation NUD_REACHABLE :: u16 where "NUD_REACHABLE \<equiv> 2"
abbreviation NUD_STALE :: u16 where "NUD_STALE \<equiv> 4"
abbreviation NUD_PERMANENT :: u16 where "NUD_PERMANENT \<equiv> 0x80"
abbreviation AF_INET :: u8 where "AF_INET \<equiv> 2"
abbreviation AF_INET6 :: u8 where "AF_INET6 \<equiv> 10"

definition align_to :: "usize \<Rightarrow> usize \<Rightarrow> usize" where
  "align_to v align = (v + (align - 1)) AND NOT (align - 1)"

text \<open>\<open>field a n buf\<close> is the integer in the \<open>n\<close> bytes at \<open>a\<close>.\<close>

definition field :: "nat \<Rightarrow> nat \<Rightarrow> u8 list \<Rightarrow> 'a::len word" where
  "field a n buf = from_le_bytes (take n (drop a buf))"

text \<open>
  \<open>read_unaligned n decode buf\<close> is \<^verbatim>\<open>ptr::read_unaligned(buf.as_ptr() as *const T)\<close> for a \<^verbatim>\<open>T\<close>
  of \<open>n\<close> bytes; \<open>index_range a b buf\<close> is \<^verbatim>\<open>buf[a..b]\<close>.
\<close>

definition read_unaligned :: "nat \<Rightarrow> (u8 list \<Rightarrow> 'a) \<Rightarrow> u8 list \<Rightarrow> 'a io_result" where
  "read_unaligned n decode buf =
     (if n \<le> length buf then Inr (decode (take n buf))
      else Inl (Undefined ''read past the end of the buffer''))"

definition index_range :: "nat \<Rightarrow> nat \<Rightarrow> 'a list \<Rightarrow> 'a list io_result" where
  "index_range a b buf =
     (case subslice a b buf of
        None \<Rightarrow> Inl (Panic ''slice index out of range'')
      | Some bs \<Rightarrow> Inr bs)"

record nlmsghdr =
  nlmsg_len :: u32
  nlmsg_type :: u16
  nlmsg_flags :: u16
  nlmsg_seq :: u32
  nlmsg_pid :: u32

definition nlmsghdr_of_bytes :: "u8 list \<Rightarrow> nlmsghdr" where
  "nlmsghdr_of_bytes buf = \<lparr>nlmsg_len = field 0 4 buf, nlmsg_type = field 4 2 buf,
     nlmsg_flags = field 6 2 buf, nlmsg_seq = field 8 4 buf, nlmsg_pid = field 12 4 buf\<rparr>"

definition read_nlmsghdr :: "u8 list \<Rightarrow> nlmsghdr io_result" where
  "read_nlmsghdr = read_unaligned 16 nlmsghdr_of_bytes"

definition nlmsghdr_bytes :: "nlmsghdr \<Rightarrow> u8 list" where
  "nlmsghdr_bytes h = to_le_bytes 4 (nlmsg_len h) @ to_le_bytes 2 (nlmsg_type h) @
     to_le_bytes 2 (nlmsg_flags h) @ to_le_bytes 4 (nlmsg_seq h) @ to_le_bytes 4 (nlmsg_pid h)"

record nlmsgerr =
  nle_error :: i32
  nle_msg :: nlmsghdr

definition read_nlmsgerr :: "u8 list \<Rightarrow> nlmsgerr io_result" where
  "read_nlmsgerr =
     read_unaligned 20 (\<lambda>buf. \<lparr>nle_error = field 0 4 buf, nle_msg = nlmsghdr_of_bytes (drop 4 buf)\<rparr>)"

section \<open>Messages\<close>

record netlink_message =
  nm_header :: nlmsghdr
  nm_data :: "u8 list"
  nm_error :: "nlmsgerr option"

definition message_read :: "u8 list \<Rightarrow> netlink_message io_result" where
  "message_read buf =
     (if 16 > length buf then Inl (IoErr (OtherError ''buffer smaller than nlmsghdr''))
      else rbind (read_nlmsghdr buf) (\<lambda>header.
        let msg_len = unat (nlmsg_len header) in
        if msg_len < 16 \<or> msg_len > length buf then Inl (IoErr (OtherError ''invalid nlmsg_len''))
        else
          let data_offset = unat (align_to 16 NLMSG_ALIGNTO) in
          if data_offset \<ge> length buf then Inl (IoErr (OtherError ''need more data''))
          else if nlmsg_type header = NLMSG_ERROR then
            (if data_offset + 20 > length buf
             then Inl (IoErr (OtherError ''NLMSG_ERROR but not enough space for nlmsgerr''))
             else rbind (index_range data_offset (length buf) buf) (\<lambda>rest.
                  rbind (read_nlmsgerr rest) (\<lambda>err.
                  Inr \<lparr>nm_header = header, nm_data = [], nm_error = Some err\<rparr>)))
          else rbind (index_range data_offset msg_len buf) (\<lambda>data.
               Inr \<lparr>nm_header = header, nm_data = data, nm_error = None\<rparr>)))"

text \<open>
  The loop over the messages of one datagram of \<open>len\<close> bytes, which ends by running off the
  datagram, by \<^verbatim>\<open>NLMSG_DONE\<close> (\<^verbatim>\<open>break 'out\<close>), or by an error. \<^verbatim>\<open>-err.error\<close> overflows for
  the least \<^verbatim>\<open>i32\<close>.
\<close>

datatype scan_result =
    ScanEnd "netlink_message list" bool
  | ScanDone "netlink_message list"
  | ScanErr failure

definition neg_errno :: "bool \<Rightarrow> i32 \<Rightarrow> failure" where
  "neg_errno dbg e =
     (if dbg \<and> e = 0x80000000 then Panic ''attempt to negate with overflow''
      else IoErr (RawOsError (sint (- e))))"

lemma message_read_len:
  "message_read buf = Inr msg \<Longrightarrow> 16 \<le> unat (nlmsg_len (nm_header msg))
     \<and> unat (nlmsg_len (nm_header msg)) \<le> length buf"
  by (auto simp: message_read_def Let_def rbind_eq_Inr_iff split: if_splits)

lemma unat_align_to_4: "n + 4 \<le> 2 ^ 64 \<Longrightarrow> unat (align_to (of_nat n) 4) = (n + 3) div 4 * 4"
proof -
  assume n: "n + 4 \<le> 2 ^ 64"
  have "is_power_of_two (4 :: usize)" unfolding is_power_of_two_iff by (intro exI [of _ 2]) simp
  then show ?thesis
    using n align_up_nat [of "4 :: usize" "of_nat n"] by (simp add: align_to_def align_up_def unat_of_nat_small)
qed

lemma align_to_word: "unat v + 4 \<le> 2 ^ 64 \<Longrightarrow> unat (align_to v 4) = (unat v + 3) div 4 * 4"
  using unat_align_to_4 [of "unat v"] by simp

lemma align_to_u32:
  "unat (align_to (ucast (v :: u32)) 4) = (unat v + 3) div 4 * 4"
proof -
  have "unat v < 2 ^ 32" using unat_less_exp [of v] by simp
  then show ?thesis by (simp add: align_to_word unat_ucast_up)
qed

function message_scan ::
  "bool \<Rightarrow> u8 list \<Rightarrow> nat \<Rightarrow> nat \<Rightarrow> netlink_message list \<Rightarrow> bool \<Rightarrow> scan_result" where
  "message_scan dbg buf len offset messages multipart =
     (if \<not> offset < len then ScanEnd messages multipart
      else case rbind (index_range offset (length buf) buf) message_read of
        Inl e \<Rightarrow> ScanErr e
      | Inr message \<Rightarrow>
          let header = nm_header message;
              offset = offset + unat (align_to (ucast (nlmsg_len header)) NLMSG_ALIGNTO);
              multipart = (nlmsg_flags header AND NLM_F_MULTI \<noteq> 0) in
          if nlmsg_type header = NLMSG_ERROR then
            (case nm_error message of
               None \<Rightarrow> ScanErr (Panic ''called Option::unwrap() on a None value'')
             | Some err \<Rightarrow>
                 if nle_error err = 0 then message_scan dbg buf len offset messages multipart
                 else ScanErr (neg_errno dbg (nle_error err)))
          else if nlmsg_type header = NLMSG_DONE then ScanDone messages
          else message_scan dbg buf len offset (messages @ [message]) multipart)"
  by pat_completeness auto
termination
  by (relation "measure (\<lambda>(dbg, buf, len, offset, messages, multipart). len - offset)")
    (auto simp: align_to_u32 rbind_eq_Inr_iff dest!: message_read_len)

declare message_scan.simps [simp del]

text \<open>
  \<^verbatim>\<open>NetlinkSocket::recv\<close>. The datagrams the socket will deliver are a list, in order; a call
  of \<^verbatim>\<open>recv\<close> when none is left blocks, and the result is \<^term>\<open>None\<close>. The buffer is reused:
  a datagram overwrites its beginning (at most 4096 bytes of it) and the rest keeps what the
  previous ones left.
\<close>

definition recv_into :: "u8 list \<Rightarrow> u8 list \<Rightarrow> u8 list" where
  "recv_into buf bytes = take (length buf) bytes @ drop (length bytes) buf"

fun netlink_recv_loop ::
  "bool \<Rightarrow> u8 list \<Rightarrow> (int + u8 list) list \<Rightarrow> netlink_message list
     \<Rightarrow> netlink_message list io_result option" where
  "netlink_recv_loop dbg buf [] messages = None"
| "netlink_recv_loop dbg buf (Inl errno # q) messages = Some (Inl (IoErr (LastOsError errno)))"
| "netlink_recv_loop dbg buf (Inr bytes # q) messages =
     (let len = min (length bytes) (length buf); buf = recv_into buf bytes in
      if len = 0 then Some (Inr messages)
      else case message_scan dbg buf len 0 messages False of
        ScanErr e \<Rightarrow> Some (Inl e)
      | ScanDone messages \<Rightarrow> Some (Inr messages)
      | ScanEnd messages multipart \<Rightarrow>
          if multipart then netlink_recv_loop dbg buf q messages else Some (Inr messages))"

definition netlink_recv ::
  "bool \<Rightarrow> (int + u8 list) list \<Rightarrow> netlink_message list io_result option" where
  "netlink_recv dbg q = netlink_recv_loop dbg (replicate 4096 0) q []"

section \<open>Attributes\<close>

record nlattr =
  nla_len :: u16
  nla_type :: u16

definition read_nlattr :: "u8 list \<Rightarrow> nlattr io_result" where
  "read_nlattr = read_unaligned 4 (\<lambda>buf. \<lparr>nla_len = field 0 2 buf, nla_type = field 2 2 buf\<rparr>)"

record nl_attr =
  na_header :: nlattr
  na_data :: "u8 list"

datatype nl_attr_error = InvalidBufferLength nat nat | InvalidHeaderLength nat

abbreviation NLA_HDR_LEN :: nat where "NLA_HDR_LEN \<equiv> unat (align_to 4 NLA_ALIGNTO)"

text \<open>\<^verbatim>\<open>NlAttrsIterator::next\<close>: the item and the new offset.\<close>

definition attrs_next ::
  "u8 list \<Rightarrow> nat \<Rightarrow> ((nl_attr_error + nl_attr) option \<times> nat) io_result" where
  "attrs_next attrs offset =
     rbind (index_range offset (length attrs) attrs) (\<lambda>buf.
     if buf = [] then Inr (None, offset)
     else if NLA_HDR_LEN > length buf
       then Inr (Some (Inl (InvalidBufferLength (length buf) NLA_HDR_LEN)), length buf)
     else rbind (read_nlattr buf) (\<lambda>attr.
       let len = unat (nla_len attr); align_len = unat (align_to (ucast (nla_len attr)) NLA_ALIGNTO) in
       if len < NLA_HDR_LEN then Inr (Some (Inl (InvalidHeaderLength len)), offset)
       else if align_len > length buf
         then Inr (Some (Inl (InvalidBufferLength (length buf) align_len)), offset)
       else rbind (index_range NLA_HDR_LEN len buf) (\<lambda>data.
         Inr (Some (Inr \<lparr>na_header = attr, na_data = data\<rparr>), offset + align_len))))"

lemma nla_hdr_len [simp]: "NLA_HDR_LEN = 4"
  using unat_align_to_4 [of 4] by simp

lemma align_to_u16:
  "unat (align_to (ucast (v :: u16)) 4) = (unat v + 3) div 4 * 4"
proof -
  have "unat v < 2 ^ 16" using unat_less_exp [of v] by simp
  then show ?thesis by (simp add: align_to_word unat_ucast_up)
qed

lemma attrs_next_progress:
  "attrs_next attrs offset = Inr (Some (Inr a), offset') \<Longrightarrow> offset < offset' \<and> offset < length attrs"
  by (auto simp: attrs_next_def Let_def align_to_u16 rbind_eq_Inr_iff index_range_def subslice_def
      split: if_splits)

text \<open>
  The loop of \<^verbatim>\<open>parse_attrs\<close> over the iterator: it stops at the first error, which
  \<^verbatim>\<open>?\<close> returns. The hash map is a map.
\<close>

function parse_attrs_from ::
  "u8 list \<Rightarrow> nat \<Rightarrow> (u16 \<rightharpoonup> nl_attr) \<Rightarrow> (nl_attr_error + (u16 \<rightharpoonup> nl_attr)) io_result" where
  "parse_attrs_from buf offset attrs =
     (case attrs_next buf offset of
        Inl f \<Rightarrow> Inl f
      | Inr (None, _) \<Rightarrow> Inr (Inr attrs)
      | Inr (Some (Inl e), _) \<Rightarrow> Inr (Inl e)
      | Inr (Some (Inr attr), offset') \<Rightarrow>
          parse_attrs_from buf offset' (attrs(nla_type (na_header attr) AND NLA_TYPE_MASK \<mapsto> attr)))"
  by pat_completeness auto
termination
  by (relation "measure (\<lambda>(buf, offset, attrs). length buf - offset)")
    (auto dest!: attrs_next_progress)

declare parse_attrs_from.simps [simp del]

definition parse_attrs :: "u8 list \<Rightarrow> (nl_attr_error + (u16 \<rightharpoonup> nl_attr)) io_result" where
  "parse_attrs buf = parse_attrs_from buf 0 Map.empty"

section \<open>Opening the socket, sending a request\<close>

text \<open>
  The kernel's side: the outcome of each call as an error number or a value. The datagrams it
  answers a request with are a function of the bytes of the request.
\<close>

record netlink_sys =
  nl_socket :: "int + int"
  nl_setsockopt :: "int option"
  nl_getsockname :: "int + u32"
  nl_send :: "u8 list \<Rightarrow> int option"
  nl_answer :: "u8 list \<Rightarrow> (int + u8 list) list"

record netlink_socket =
  ns_sock :: int
  ns_nl_pid :: u32

definition netlink_open :: "netlink_sys \<Rightarrow> netlink_socket io_result" where
  "netlink_open sys =
     (case nl_socket sys of
        Inl errno \<Rightarrow> Inl (IoErr (LastOsError errno))
      | Inr sock \<Rightarrow>
          (case nl_setsockopt sys of
             Some errno \<Rightarrow> Inl (IoErr (LastOsError errno))
           | None \<Rightarrow>
               (case nl_getsockname sys of
                  Inl errno \<Rightarrow> Inl (IoErr (LastOsError errno))
                | Inr pid \<Rightarrow> Inr \<lparr>ns_sock = sock, ns_nl_pid = pid\<rparr>)))"

definition netlink_send :: "netlink_sys \<Rightarrow> u8 list \<Rightarrow> unit io_result" where
  "netlink_send sys msg =
     (case nl_send sys msg of
        Some errno \<Rightarrow> Inl (IoErr (LastOsError errno))
      | None \<Rightarrow> Inr ())"

definition request_header :: "nat \<Rightarrow> u16 \<Rightarrow> nlmsghdr" where
  "request_header body_size ty =
     \<lparr>nlmsg_len = of_nat (16 + body_size), nlmsg_type = ty,
      nlmsg_flags = NLM_F_REQUEST OR NLM_F_DUMP, nlmsg_seq = 1, nlmsg_pid = 0\<rparr>"

text \<open>
  The bytes are indexed one by one; as they are indexed from 0 up, the panic is that of a slice
  shorter than the last of them.
\<close>

definition parse_ip_address :: "u8 list \<Rightarrow> u8 \<Rightarrow> ip_addr option io_result" where
  "parse_ip_address data family =
     (if family = AF_INET \<and> length data = 4 then
        rbind (index_range 0 4 data) (\<lambda>d.
        Inr (Some (V4 (Ipv4Addr (d ! 0) (d ! 1) (d ! 2) (d ! 3)))))
      else if family = AF_INET6 \<and> length data = 16 then
        rbind (index_range 0 16 data) (\<lambda>d.
        let seg = (\<lambda>i. push_bit 8 (ucast (d ! (i * 2))) OR ucast (d ! (i * 2 + 1))) in
        Inr (Some (V6 (Ipv6Addr (seg 0) (seg 1) (seg 2) (seg 3) (seg 4) (seg 5) (seg 6) (seg 7)))))
      else Inr None)"

text \<open>\<^verbatim>\<open>if let Some(attr) = attrs.get(&ty) { field = parse(attr) }\<close> on a field that starts as \<^verbatim>\<open>None\<close>.\<close>

definition attr_field ::
  "(u16 \<rightharpoonup> nl_attr) \<Rightarrow> u16 \<Rightarrow> (u8 list \<Rightarrow> 'a option io_result) \<Rightarrow> 'a option io_result" where
  "attr_field attrs ty parse = (case attrs ty of None \<Rightarrow> Inr None | Some a \<Rightarrow> parse (na_data a))"

section \<open>Neighbours\<close>

record neighbor_entry =
  ne_destination :: "ip_addr option"
  ne_lladdr :: "mac_address option"
  ne_ifindex :: i32
  ne_state :: u16

definition neighbor_is_valid :: "neighbor_entry \<Rightarrow> bool" where
  "neighbor_is_valid n \<longleftrightarrow> ne_lladdr n \<noteq> None \<and>
     ne_state n AND (NUD_REACHABLE OR NUD_PERMANENT OR NUD_STALE) \<noteq> 0"

record ndmsg =
  ndm_family :: u8
  ndm_ifindex :: i32
  ndm_state :: u16
  ndm_flags :: u8
  ndm_type :: u8

definition read_ndmsg :: "u8 list \<Rightarrow> ndmsg io_result" where
  "read_ndmsg =
     read_unaligned 12 (\<lambda>buf. \<lparr>ndm_family = field 0 1 buf, ndm_ifindex = field 4 4 buf,
       ndm_state = field 8 2 buf, ndm_flags = field 10 1 buf, ndm_type = field 11 1 buf\<rparr>)"

definition ndmsg_bytes :: "ndmsg \<Rightarrow> u8 list" where
  "ndmsg_bytes n = [ndm_family n, 0, 0, 0] @ to_le_bytes 4 (ndm_ifindex n) @
     to_le_bytes 2 (ndm_state n) @ [ndm_flags n, ndm_type n]"

definition neigh_request :: "i32 option \<Rightarrow> u8 \<Rightarrow> u8 list" where
  "neigh_request if_index family =
     nlmsghdr_bytes (request_header 12 RTM_GETNEIGH) @
     ndmsg_bytes \<lparr>ndm_family = family, ndm_ifindex = (case if_index of None \<Rightarrow> 0 | Some idx \<Rightarrow> idx),
       ndm_state = 0, ndm_flags = 0, ndm_type = 0\<rparr>"

definition mac_of_bytes :: "u8 list \<Rightarrow> mac_address option io_result" where
  "mac_of_bytes data =
     (if length data \<ge> 6 then
        rbind (index_range 0 6 data) (\<lambda>d.
        Inr (Some (MacAddress (d ! 0) (d ! 1) (d ! 2) (d ! 3) (d ! 4) (d ! 5))))
      else Inr None)"

definition parse_rtm_newneigh ::
  "netlink_message \<Rightarrow> i32 option \<Rightarrow> neighbor_entry option io_result" where
  "parse_rtm_newneigh msg if_index =
     rbind (read_ndmsg (nm_data msg)) (\<lambda>nd_msg.
     if (case if_index of None \<Rightarrow> False | Some idx \<Rightarrow> ndm_ifindex nd_msg \<noteq> idx) then Inr None
     else
       rbind (index_range 12 (length (nm_data msg)) (nm_data msg)) (\<lambda>buf.
       rbind (parse_attrs buf) (\<lambda>r. case r of
         Inl _ \<Rightarrow> Inr None
       | Inr attrs \<Rightarrow>
           rbind (attr_field attrs NDA_DST (\<lambda>d. parse_ip_address d (ndm_family nd_msg))) (\<lambda>destination.
           rbind (attr_field attrs NDA_LLADDR mac_of_bytes) (\<lambda>lladdr.
           Inr (Some \<lparr>ne_destination = destination, ne_lladdr = lladdr,
                  ne_ifindex = ndm_ifindex nd_msg, ne_state = ndm_state nd_msg\<rparr>))))))"

text \<open>
  The loop both queries share: keep the messages of the wanted type that hold the fixed part,
  parse them, and drop those that do not parse.
\<close>

fun collect ::
  "u16 \<Rightarrow> nat \<Rightarrow> (netlink_message \<Rightarrow> 'a option io_result) \<Rightarrow> netlink_message list \<Rightarrow> 'a list io_result"
where
  "collect ty fixed parse [] = Inr []"
| "collect ty fixed parse (msg # msgs) =
     (if nlmsg_type (nm_header msg) \<noteq> ty then collect ty fixed parse msgs
      else if length (nm_data msg) < fixed then collect ty fixed parse msgs
      else rbind (parse msg) (\<lambda>x. case x of
          None \<Rightarrow> collect ty fixed parse msgs
        | Some a \<Rightarrow> rbind (collect ty fixed parse msgs) (\<lambda>as. Inr (a # as))))"

definition query ::
  "bool \<Rightarrow> netlink_sys \<Rightarrow> u8 list \<Rightarrow> (netlink_message list \<Rightarrow> 'a list io_result)
     \<Rightarrow> 'a list io_result option" where
  "query dbg sys req k =
     (case netlink_open sys of
        Inl e \<Rightarrow> Some (Inl e)
      | Inr _ \<Rightarrow>
          (case netlink_send sys req of
             Inl e \<Rightarrow> Some (Inl e)
           | Inr _ \<Rightarrow> map_option (\<lambda>r. rbind r k) (netlink_recv dbg (nl_answer sys req))))"

definition netlink_get_neighbors ::
  "bool \<Rightarrow> netlink_sys \<Rightarrow> i32 option \<Rightarrow> u8 \<Rightarrow> neighbor_entry list io_result option" where
  "netlink_get_neighbors dbg sys if_index family =
     query dbg sys (neigh_request if_index family)
       (collect RTM_NEWNEIGH 12 (\<lambda>msg. parse_rtm_newneigh msg if_index))"

section \<open>Routes\<close>

record route_entry =
  re_destination :: "ip_addr option"
  re_gateway :: "ip_addr option"
  re_pref_src :: "ip_addr option"
  re_out_if_index :: "i32 option"
  re_in_if_index :: "i32 option"
  re_priority :: "u32 option"
  re_table :: "u32 option"
  re_protocol :: u8
  re_scope :: u8
  re_type :: u8
  re_family :: u8
  re_dst_len :: u8

record rtmsg =
  rtm_family :: u8
  rtm_dst_len :: u8
  rtm_src_len :: u8
  rtm_tos :: u8
  rtm_table :: u8
  rtm_protocol :: u8
  rtm_scope :: u8
  rtm_type :: u8
  rtm_flags :: u32

definition read_rtmsg :: "u8 list \<Rightarrow> rtmsg io_result" where
  "read_rtmsg =
     read_unaligned 12 (\<lambda>buf. \<lparr>rtm_family = field 0 1 buf, rtm_dst_len = field 1 1 buf,
       rtm_src_len = field 2 1 buf, rtm_tos = field 3 1 buf, rtm_table = field 4 1 buf,
       rtm_protocol = field 5 1 buf, rtm_scope = field 6 1 buf, rtm_type = field 7 1 buf,
       rtm_flags = field 8 4 buf\<rparr>)"

definition rtmsg_bytes :: "rtmsg \<Rightarrow> u8 list" where
  "rtmsg_bytes r = [rtm_family r, rtm_dst_len r, rtm_src_len r, rtm_tos r, rtm_table r,
     rtm_protocol r, rtm_scope r, rtm_type r] @ to_le_bytes 4 (rtm_flags r)"

definition route_request :: "u8 \<Rightarrow> u8 list" where
  "route_request family =
     nlmsghdr_bytes (request_header 12 RTM_GETROUTE) @
     rtmsg_bytes \<lparr>rtm_family = family, rtm_dst_len = 0, rtm_src_len = 0, rtm_tos = 0,
       rtm_table = RT_TABLE_MAIN, rtm_protocol = 0, rtm_scope = 0, rtm_type = 0, rtm_flags = 0\<rparr>"

definition u32_from_ne_bytes :: "u8 list \<Rightarrow> u32 option" where
  "u32_from_ne_bytes data = map_option from_le_bytes (subslice 0 4 data)"

definition parse_rtm_newroute :: "netlink_message \<Rightarrow> route_entry option io_result" where
  "parse_rtm_newroute msg =
     rbind (read_rtmsg (nm_data msg)) (\<lambda>rt_msg.
     rbind (index_range 12 (length (nm_data msg)) (nm_data msg)) (\<lambda>buf.
     rbind (parse_attrs buf) (\<lambda>r. case r of
       Inl _ \<Rightarrow> Inr None
     | Inr attrs \<Rightarrow>
         let ip = (\<lambda>ty. attr_field attrs ty (\<lambda>d. parse_ip_address d (rtm_family rt_msg)));
             num = (\<lambda>ty. Option.bind (attrs ty) (\<lambda>a. u32_from_ne_bytes (na_data a))) in
         rbind (ip RTA_DST) (\<lambda>destination.
         rbind (ip RTA_GATEWAY) (\<lambda>gateway.
         rbind (ip RTA_PREFSRC) (\<lambda>pref_src.
         Inr (Some \<lparr>re_destination = destination, re_gateway = gateway,
               re_pref_src = pref_src, re_out_if_index = num RTA_OIF,
               re_in_if_index = num RTA_IIF, re_priority = num RTA_PRIORITY,
               re_table = num RTA_TABLE, re_protocol = rtm_protocol rt_msg,
               re_scope = rtm_scope rt_msg, re_type = rtm_type rt_msg,
               re_family = rtm_family rt_msg, re_dst_len = rtm_dst_len rt_msg\<rparr>)))))))"

definition netlink_get_routes ::
  "bool \<Rightarrow> netlink_sys \<Rightarrow> u8 \<Rightarrow> route_entry list io_result option" where
  "netlink_get_routes dbg sys family =
     query dbg sys (route_request family) (collect RTM_NEWROUTE 12 parse_rtm_newroute)"

definition is_default_destination :: "u8 \<Rightarrow> route_entry \<Rightarrow> bool" where
  "is_default_destination family route =
     (case re_destination route of
        None \<Rightarrow> True
      | Some (V4 addr) \<Rightarrow> family = AF_INET \<and> addr = ipv4_unspecified \<and> re_dst_len route = 0
      | Some (V6 addr) \<Rightarrow> family = AF_INET6 \<and> addr = ipv6_unspecified \<and> re_dst_len route = 0)"

definition netlink_get_default_gateway ::
  "bool \<Rightarrow> netlink_sys \<Rightarrow> u8 \<Rightarrow> route_entry option io_result option" where
  "netlink_get_default_gateway dbg sys family =
     map_option (\<lambda>r. rbind r (\<lambda>routes.
         Inr (List.find (\<lambda>route. is_default_destination family route \<and> re_gateway route \<noteq> None) routes)))
       (netlink_get_routes dbg sys family)"

section \<open>Parsing never leaves the buffer\<close>

lemma read_unaligned_ok: "n \<le> length buf \<Longrightarrow> read_unaligned n decode buf = Inr (decode (take n buf))"
  by (simp add: read_unaligned_def)

lemma read_unaligned_append: "length bs = n \<Longrightarrow> read_unaligned n decode (bs @ rest) = Inr (decode bs)"
  by (simp add: read_unaligned_def)

lemma index_range_ok: "a \<le> b \<Longrightarrow> b \<le> length xs \<Longrightarrow> index_range a b xs = Inr (take (b - a) (drop a xs))"
  by (simp add: index_range_def subslice_def)

lemma index_range_drop [simp]: "a \<le> length xs \<Longrightarrow> index_range a (length xs) xs = Inr (drop a xs)"
  by (simp add: index_range_ok)

lemma index_range_rest [simp]: "n = length pre + length xs \<Longrightarrow> index_range (length pre) n (pre @ xs) = Inr xs"
  by (simp add: index_range_ok)

lemmas read_ok = read_nlmsghdr_def read_nlmsgerr_def read_nlattr_def read_ndmsg_def read_rtmsg_def
  read_unaligned_ok

lemma attrs_next_total:
  "offset \<le> length attrs \<Longrightarrow> \<exists>x offset'. attrs_next attrs offset = Inr (x, offset') \<and> offset' \<le> length attrs"
  by (auto simp: attrs_next_def Let_def align_to_u16 read_ok index_range_ok)

lemma parse_attrs_from_total:
  "offset \<le> length buf \<Longrightarrow> io_ok (parse_attrs_from buf offset attrs)"
proof (induction buf offset attrs rule: parse_attrs_from.induct)
  case (1 buf offset attrs)
  then obtain x offset' where n: "attrs_next buf offset = Inr (x, offset')" "offset' \<le> length buf"
    using attrs_next_total by blast
  have "io_ok (parse_attrs_from buf offset' (attrs(nla_type (na_header a) AND NLA_TYPE_MASK \<mapsto> a)))"
    if "x = Some (Inr a)" for a
    by (rule "1.IH" [OF n(1) refl that refl n(2)])
  then show ?case
    by (subst parse_attrs_from.simps) (use n(1) in \<open>auto split: option.splits sum.splits simp del: fun_upd_apply\<close>)
qed

lemma parse_attrs_total: "\<exists>r. parse_attrs buf = Inr r"
  using parse_attrs_from_total [of 0 buf Map.empty]
  by (cases "parse_attrs buf") (simp_all add: parse_attrs_def)

text \<open>
  What a caller may see: a value or an I/O error, never undefined behaviour, and a panic only
  where a debug build negates the least \<^verbatim>\<open>i32\<close>.
\<close>

fun failure_safe :: "bool \<Rightarrow> failure \<Rightarrow> bool" where
  "failure_safe dbg (IoErr e) = True"
| "failure_safe dbg (Panic p) = (dbg \<and> p = ''attempt to negate with overflow'')"
| "failure_safe dbg (Undefined u) = False"

fun memory_safe :: "bool \<Rightarrow> 'a io_result \<Rightarrow> bool" where
  "memory_safe dbg (Inl f) = failure_safe dbg f"
| "memory_safe dbg (Inr a) = True"

lemma memory_safe_rbind:
  "memory_safe dbg r \<Longrightarrow> (\<And>a. r = Inr a \<Longrightarrow> memory_safe dbg (f a)) \<Longrightarrow> memory_safe dbg (rbind r f)"
  by (cases r) auto

lemma attr_field_safe:
  "memory_safe dbg (attr_field attrs ty (\<lambda>d. parse_ip_address d family))"
  "memory_safe dbg (attr_field attrs ty mac_of_bytes)"
  by (simp_all add: attr_field_def parse_ip_address_def mac_of_bytes_def index_range_ok Let_def split: option.split)

lemma parse_safe:
  assumes "12 \<le> length (nm_data msg)"
  shows "memory_safe dbg (parse_rtm_newroute msg)" "memory_safe dbg (parse_rtm_newneigh msg if_index)"
proof -
  obtain r where "parse_attrs (drop 12 (nm_data msg)) = Inr r" using parse_attrs_total by blast
  then show "memory_safe dbg (parse_rtm_newroute msg)" "memory_safe dbg (parse_rtm_newneigh msg if_index)"
    using assms
    by (auto simp: parse_rtm_newroute_def parse_rtm_newneigh_def read_ok Let_def
        intro!: memory_safe_rbind attr_field_safe split: sum.split)
qed

lemma collect_safe:
  "(\<And>msg. fixed \<le> length (nm_data msg) \<Longrightarrow> memory_safe dbg (parse msg)) \<Longrightarrow>
   memory_safe dbg (collect ty fixed parse msgs)"
proof (induction msgs)
  case (Cons msg msgs)
  then show ?case
    by (auto intro!: memory_safe_rbind split: option.splits)
qed simp

lemma message_read_safe: "memory_safe dbg (message_read buf)"
  using unat_align_to_4 [of 16] by (simp add: message_read_def Let_def read_ok index_range_ok)

lemma message_read_error_present:
  "message_read buf = Inr msg \<Longrightarrow> nlmsg_type (nm_header msg) = NLMSG_ERROR \<Longrightarrow> nm_error msg \<noteq> None"
  by (auto simp: message_read_def Let_def rbind_eq_Inr_iff split: if_splits)

lemma neg_errno_safe: "failure_safe dbg (neg_errno dbg e)"
  by (simp add: neg_errno_def)

lemma message_scan_safe:
  "len \<le> length buf \<Longrightarrow> message_scan dbg buf len offset messages multipart = ScanErr f \<Longrightarrow> failure_safe dbg f"
proof (induction dbg buf len offset messages multipart rule: message_scan.induct)
  case (1 dbg buf len offset messages multipart)
  show ?case
  proof (cases "offset < len")
    case True
    then have i: "index_range offset (length buf) buf = Inr (drop offset buf)" using "1.prems" by simp
    show ?thesis
    proof (cases "message_read (drop offset buf)")
      case (Inl e)
      then show ?thesis
        using "1.prems" True i message_read_safe [of dbg "drop offset buf"]
        by (simp add: message_scan.simps [of _ _ _ offset])
    next
      case (Inr msg)
      then have r: "rbind (index_range offset (length buf) buf) message_read = Inr msg" using i by simp
      let ?h = "nm_header msg"
      let ?o = "offset + unat (align_to (ucast (nlmsg_len ?h)) 4)" and ?m = "nlmsg_flags ?h AND NLM_F_MULTI \<noteq> 0"
      have "nlmsg_type ?h = NLMSG_ERROR \<Longrightarrow> nm_error msg = Some err \<Longrightarrow> nle_error err = 0 \<Longrightarrow>
          message_scan dbg buf len ?o messages ?m = ScanErr f \<Longrightarrow> failure_safe dbg f" for err
        by (rule "1.IH"(1) [OF _ r refl refl refl]) (use True "1.prems" in auto)
      moreover have "nlmsg_type ?h \<noteq> NLMSG_ERROR \<Longrightarrow> nlmsg_type ?h \<noteq> NLMSG_DONE \<Longrightarrow>
          message_scan dbg buf len ?o (messages @ [msg]) ?m = ScanErr f \<Longrightarrow> failure_safe dbg f"
        by (rule "1.IH"(2) [OF _ r refl refl refl]) (use True "1.prems" in auto)
      moreover have "nlmsg_type ?h = NLMSG_ERROR \<Longrightarrow> \<exists>err. nm_error msg = Some err"
        using message_read_error_present [OF Inr] by auto
      ultimately show ?thesis
        using True "1.prems"(2) neg_errno_safe
        by (subst (asm) message_scan.simps) (auto simp: r Let_def split: if_splits)
    qed
  qed (use "1.prems" in \<open>simp add: message_scan.simps [of _ _ _ offset]\<close>)
qed

lemma length_recv_into [simp]: "length (recv_into buf bytes) = length buf"
  by (simp add: recv_into_def)

lemma netlink_recv_loop_safe:
  "netlink_recv_loop dbg buf q messages = Some r \<Longrightarrow> memory_safe dbg r"
proof (induction q arbitrary: buf messages)
  case (Cons d q)
  show ?case
  proof (cases d)
    case (Inr bytes)
    let ?s = "message_scan dbg (recv_into buf bytes) (min (length bytes) (length buf)) 0 messages False"
    have "?s = ScanErr f \<Longrightarrow> failure_safe dbg f" for f by (rule message_scan_safe) simp_all
    then show ?thesis
      using Cons Inr by (auto simp: Let_def split: if_splits scan_result.splits)
  qed (use Cons.prems in auto)
qed simp

lemma query_safe:
  assumes "query dbg sys req k = Some r" and "\<And>msgs. memory_safe dbg (k msgs)"
  shows "memory_safe dbg r"
proof -
  have "netlink_open sys = Inl e \<Longrightarrow> failure_safe dbg e" for e
    by (auto simp: netlink_open_def split: sum.splits option.splits)
  moreover have "netlink_send sys req = Inl e \<Longrightarrow> failure_safe dbg e" for e
    by (auto simp: netlink_send_def split: option.splits)
  ultimately show ?thesis
    using assms by (auto simp: query_def netlink_recv_def
        intro!: memory_safe_rbind dest: netlink_recv_loop_safe split: sum.splits)
qed

section \<open>What the kernel sends\<close>

text \<open>
  The encodings of the netlink interface, the other direction of the parsers: an attribute is
  its length, its type and its data, padded to four bytes; a message its header and its data,
  padded likewise; a datagram the messages one after the other.
\<close>

definition pad4 :: "u8 list \<Rightarrow> u8 list" where
  "pad4 bs = bs @ replicate ((length bs + 3) div 4 * 4 - length bs) 0"

definition attr_bytes :: "u16 \<times> u8 list \<Rightarrow> u8 list" where
  "attr_bytes a = (case a of (ty, data) \<Rightarrow>
     pad4 (to_le_bytes 2 (of_nat (4 + length data) :: u16) @ to_le_bytes 2 ty @ data))"

definition attrs_bytes :: "(u16 \<times> u8 list) list \<Rightarrow> u8 list" where
  "attrs_bytes as = concat (map attr_bytes as)"

definition attr_wf :: "u16 \<times> u8 list \<Rightarrow> bool" where
  "attr_wf a \<longleftrightarrow> (case a of (ty, data) \<Rightarrow> 4 + length data < 2 ^ 16)"

definition attr_value :: "u16 \<times> u8 list \<Rightarrow> nl_attr" where
  "attr_value a = (case a of (ty, data) \<Rightarrow>
     \<lparr>na_header = \<lparr>nla_len = of_nat (4 + length data), nla_type = ty\<rparr>, na_data = data\<rparr>)"

definition attr_key :: "u16 \<times> u8 list \<Rightarrow> u16" where
  "attr_key a = fst a AND NLA_TYPE_MASK"

lemma attrs_bytes_Cons: "attrs_bytes (a # as) = attr_bytes a @ attrs_bytes as"
  by (simp add: attrs_bytes_def)

lemma length_pad4: "length (pad4 bs) = (length bs + 3) div 4 * 4"
  by (simp add: pad4_def)

lemma length_attr_bytes: "length (attr_bytes (ty, data)) = (length data + 7) div 4 * 4"
  by (simp add: attr_bytes_def length_pad4 ac_simps)

lemma take_pad4: "n \<le> length bs \<Longrightarrow> take n (drop k (pad4 bs @ rest)) = take n (drop k (bs @ replicate ((length bs + 3) div 4 * 4 - length bs) 0 @ rest))"
  by (simp add: pad4_def)

lemma field_here: "field 0 n (to_le_bytes n w @ rest) = from_le_bytes (to_le_bytes n w)"
  by (simp add: field_def)

lemma field_skip: "length xs \<le> a \<Longrightarrow> field a n (xs @ rest) = field (a - length xs) n rest"
  by (simp add: field_def)

lemma read_nlattr_bytes:
  assumes "attr_wf (ty, data)"
  shows "read_nlattr (attr_bytes (ty, data) @ rest) = Inr (na_header (attr_value (ty, data)))"
proof -
  let ?h = "to_le_bytes 2 (of_nat (4 + length data) :: u16) @ to_le_bytes 2 ty"
  obtain pad where "attr_bytes (ty, data) @ rest = ?h @ pad" by (simp add: attr_bytes_def pad4_def)
  moreover have "length ?h = 4" by simp
  moreover have "field 0 2 ?h = (of_nat (4 + length data) :: u16)" "field 2 2 ?h = ty"
    by (simp_all add: field_def from_to_le_bytes del: of_nat_add)
  ultimately show ?thesis by (simp add: read_nlattr_def read_unaligned_append attr_value_def del: of_nat_add append_assoc)
qed

lemma attrs_next_bytes:
  assumes "attr_wf (ty, data)"
  shows "attrs_next (pre @ attr_bytes (ty, data) @ rest) (length pre) =
     Inr (Some (Inr (attr_value (ty, data))), length pre + length (attr_bytes (ty, data)))"
proof -
  have u: "unat (of_nat (4 + length data) :: u16) = 4 + length data"
    by (rule unat_of_nat_small) (use assms in \<open>simp add: attr_wf_def\<close>)
  have h: "read_nlattr (attr_bytes (ty, data) @ rest) = Inr \<lparr>nla_len = of_nat (4 + length data), nla_type = ty\<rparr>"
    using read_nlattr_bytes [OF assms] by (simp add: attr_value_def)
  have "index_range 4 (4 + length data) (attr_bytes (ty, data) @ rest) = Inr data"
    by (simp add: index_range_ok attr_bytes_def pad4_def)
  moreover have l: "4 \<le> length (attr_bytes (ty, data))" unfolding length_attr_bytes by simp
  moreover have "attr_bytes (ty, data) \<noteq> []" using l by force
  moreover have "unat (align_to (ucast (of_nat (4 + length data) :: u16)) 4) = length (attr_bytes (ty, data))"
    unfolding align_to_u16 u length_attr_bytes by (simp add: ac_simps)
  ultimately show ?thesis
    by (simp add: attrs_next_def Let_def h u attr_value_def del: of_nat_add)
qed

lemma parse_attrs_from_bytes:
  "\<forall>a \<in> set as. attr_wf a \<Longrightarrow>
   parse_attrs_from (pre @ attrs_bytes as) (length pre) m =
     Inr (Inr (m ++ map_of (rev (map (\<lambda>a. (attr_key a, attr_value a)) as))))"
proof (induction as arbitrary: pre m)
  case Nil
  then show ?case by (subst parse_attrs_from.simps) (simp add: attrs_bytes_def attrs_next_def)
next
  case (Cons a as)
  obtain ty data where a: "a = (ty, data)" by (cases a)
  have "attrs_next (pre @ attrs_bytes (a # as)) (length pre) =
     Inr (Some (Inr (attr_value a)), length (pre @ attr_bytes a))"
    using attrs_next_bytes [of ty data pre "attrs_bytes as"] Cons.prems by (simp add: a attrs_bytes_def)
  moreover have "parse_attrs_from ((pre @ attr_bytes a) @ attrs_bytes as) (length (pre @ attr_bytes a)) m' =
     Inr (Inr (m' ++ map_of (rev (map (\<lambda>a. (attr_key a, attr_value a)) as))))" for m'
    by (rule Cons.IH) (use Cons.prems in simp)
  moreover have "nla_type (na_header (attr_value a)) AND NLA_TYPE_MASK = attr_key a"
    by (simp add: a attr_value_def attr_key_def)
  ultimately have "parse_attrs_from (pre @ attrs_bytes (a # as)) (length pre) m =
     Inr (Inr (m(attr_key a \<mapsto> attr_value a) ++ map_of (rev (map (\<lambda>a. (attr_key a, attr_value a)) as))))"
    by (subst parse_attrs_from.simps) (simp add: attrs_bytes_Cons)
  then show ?case by (simp add: map_add_assoc)
qed

lemma parse_attrs_bytes:
  "\<forall>a \<in> set as. attr_wf a \<Longrightarrow>
   parse_attrs (attrs_bytes as) = Inr (Inr (map_of (rev (map (\<lambda>a. (attr_key a, attr_value a)) as))))"
  using parse_attrs_from_bytes [of as "[]" Map.empty] by (simp add: parse_attrs_def)

definition message_bytes :: "netlink_message \<Rightarrow> u8 list" where
  "message_bytes m = pad4 (nlmsghdr_bytes (nm_header m) @ nm_data m)"

definition message_wf :: "netlink_message \<Rightarrow> bool" where
  "message_wf m \<longleftrightarrow> nm_error m = None \<and> nlmsg_type (nm_header m) \<noteq> NLMSG_ERROR \<and> nm_data m \<noteq> [] \<and>
     16 + length (nm_data m) < 2 ^ 32 \<and> nlmsg_len (nm_header m) = of_nat (16 + length (nm_data m))"

definition datagram :: "netlink_message list \<Rightarrow> u8 list" where
  "datagram ms = concat (map message_bytes ms)"

definition is_multi :: "netlink_message \<Rightarrow> bool" where
  "is_multi m \<longleftrightarrow> nlmsg_flags (nm_header m) AND NLM_F_MULTI \<noteq> 0"

lemma length_nlmsghdr_bytes [simp]: "length (nlmsghdr_bytes h) = 16"
  by (simp add: nlmsghdr_bytes_def)

lemma length_message_bytes: "length (message_bytes m) = (length (nm_data m) + 19) div 4 * 4"
  by (simp add: message_bytes_def length_pad4 ac_simps)

lemma read_nlmsghdr_bytes: "read_nlmsghdr (nlmsghdr_bytes h @ rest) = Inr h"
proof -
  have "nlmsghdr_of_bytes (nlmsghdr_bytes h) = h"
    by (simp add: nlmsghdr_of_bytes_def nlmsghdr_bytes_def field_here field_here [where rest = "[]", simplified]
        field_skip from_to_le_bytes)
  then show ?thesis by (simp add: read_nlmsghdr_def read_unaligned_append)
qed

lemma message_wf_len: "message_wf m \<Longrightarrow> unat (nlmsg_len (nm_header m)) = 16 + length (nm_data m)"
proof -
  assume "message_wf m"
  then have "16 + length (nm_data m) < 2 ^ LENGTH(32)" "nlmsg_len (nm_header m) = of_nat (16 + length (nm_data m))"
    by (simp_all only: message_wf_def len_num0 len_bit0 len_num1) simp
  then show ?thesis by (metis unat_of_nat_small)
qed

lemma message_read_bytes:
  assumes "message_wf m"
  shows "message_read (message_bytes m @ rest) = Inr m"
proof -
  let ?b = "message_bytes m @ rest"
  have b: "?b = nlmsghdr_bytes (nm_header m) @ nm_data m @
      (replicate ((16 + length (nm_data m) + 3) div 4 * 4 - (16 + length (nm_data m))) 0 @ rest)"
    by (simp add: message_bytes_def pad4_def)
  have h: "read_nlmsghdr ?b = Inr (nm_header m)" unfolding b by (rule read_nlmsghdr_bytes)
  have l: "16 + length (nm_data m) \<le> length ?b" unfolding b by simp
  have s: "index_range 16 (16 + length (nm_data m)) ?b = Inr (nm_data m)"
    unfolding b by (simp add: index_range_ok)
  have "0 < length (nm_data m)" using assms by (simp add: message_wf_def)
  moreover have "unat (align_to 16 4) = 16" using unat_align_to_4 [of 16] by simp
  moreover have "nm_error m = None" "nlmsg_type (nm_header m) \<noteq> NLMSG_ERROR"
    using assms by (simp_all add: message_wf_def)
  moreover have "16 < length ?b" using l calculation(1) by linarith
  ultimately show ?thesis
    using l by (simp add: message_read_def Let_def h s message_wf_len [OF assms])
qed

lemma message_scan_step:
  assumes "message_wf m" "length pre < len" "buf = pre @ message_bytes m @ rest"
  shows "message_scan dbg buf len (length pre) acc mp =
    (if nlmsg_type (nm_header m) = NLMSG_DONE then ScanDone acc
     else message_scan dbg buf len (length (pre @ message_bytes m)) (acc @ [m]) (is_multi m))"
proof -
  have "unat (align_to (ucast (nlmsg_len (nm_header m))) 4) = length (message_bytes m)"
    by (simp add: align_to_u32 message_wf_len [OF assms(1)] length_message_bytes ac_simps)
  moreover have "message_read (drop (length pre) buf) = Inr m"
    using message_read_bytes [OF assms(1), of rest] assms(3) by simp
  ultimately show ?thesis
    using assms by (simp add: message_scan.simps [of _ _ _ "length pre"] Let_def message_wf_def is_multi_def)
qed

lemma message_scan_datagram:
  assumes "\<forall>m \<in> set ms. message_wf m \<and> nlmsg_type (nm_header m) \<noteq> NLMSG_DONE \<and> is_multi m"
    and "buf = pre @ datagram ms @ rest" "length pre + length (datagram ms) \<le> len"
  shows "message_scan dbg buf len (length pre) acc mp =
    message_scan dbg buf len (length (pre @ datagram ms)) (acc @ ms) (if ms = [] then mp else True)"
  using assms
proof (induction ms arbitrary: pre acc mp)
  case Nil
  then show ?case by (simp add: datagram_def)
next
  case (Cons m ms)
  have d: "datagram (m # ms) = message_bytes m @ datagram ms" by (simp add: datagram_def)
  have "0 < length (message_bytes m)" by (simp add: length_message_bytes)
  then have "length pre < len" using Cons.prems(3) unfolding d length_append by linarith
  then have "message_scan dbg buf len (length pre) acc mp =
      message_scan dbg buf len (length (pre @ message_bytes m)) (acc @ [m]) True"
    using Cons.prems message_scan_step [of m pre len buf "datagram ms @ rest"] by (simp add: d)
  also have "\<dots> = message_scan dbg buf len (length ((pre @ message_bytes m) @ datagram ms)) ((acc @ [m]) @ ms)
      (if ms = [] then True else True)"
    by (rule Cons.IH) (use Cons.prems d in auto)
  finally show ?case by (simp add: d)
qed

lemma recv_into_fits: "length bytes \<le> length buf \<Longrightarrow> recv_into buf bytes = bytes @ drop (length bytes) buf"
  by (simp add: recv_into_def)

definition is_dump_part :: "netlink_message list \<Rightarrow> bool" where
  "is_dump_part ms \<longleftrightarrow> ms \<noteq> [] \<and> length (datagram ms) \<le> 4096 \<and>
     (\<forall>m \<in> set ms. message_wf m \<and> nlmsg_type (nm_header m) \<noteq> NLMSG_DONE \<and> is_multi m)"

definition is_dump_end :: "netlink_message list \<Rightarrow> netlink_message \<Rightarrow> bool" where
  "is_dump_end ms d \<longleftrightarrow> length (datagram (ms @ [d])) \<le> 4096 \<and>
     (\<forall>m \<in> set ms. message_wf m \<and> nlmsg_type (nm_header m) \<noteq> NLMSG_DONE \<and> is_multi m) \<and>
     message_wf d \<and> nlmsg_type (nm_header d) = NLMSG_DONE"

lemma datagram_append [simp]: "datagram (xs @ ys) = datagram xs @ datagram ys"
  by (simp add: datagram_def)

lemma datagram_single [simp]: "datagram [m] = message_bytes m"
  by (simp add: datagram_def)

lemma datagram_pos: "ms \<noteq> [] \<Longrightarrow> 0 < length (datagram ms)"
proof -
  assume "ms \<noteq> []"
  then obtain m ms' where "ms = m # ms'" by (cases ms) auto
  moreover have "0 < length (message_bytes m)" by (simp add: length_message_bytes)
  ultimately show ?thesis by (simp add: datagram_def)
qed

lemma recv_loop_part:
  assumes "length buf = 4096" "is_dump_part ms"
  shows "\<exists>buf'. length buf' = 4096 \<and>
    netlink_recv_loop dbg buf (Inr (datagram ms) # q) acc = netlink_recv_loop dbg buf' q (acc @ ms)"
proof -
  let ?b = "recv_into buf (datagram ms)" and ?n = "length (datagram ms)"
  have n: "?n \<le> 4096" "0 < ?n" "ms \<noteq> []" using assms(2) datagram_pos by (auto simp: is_dump_part_def)
  have "message_scan dbg ?b ?n (length ([]::u8 list)) acc False = ScanEnd (acc @ ms) True"
    using message_scan_datagram [of ms ?b "[]" "drop ?n buf" ?n dbg acc False] assms n
    by (simp add: is_dump_part_def recv_into_fits message_scan.simps [of _ _ _ "length (datagram ms)"])
  then show ?thesis using n assms(1) by (intro exI [of _ ?b]) (simp add: Let_def)
qed

lemma recv_loop_end:
  assumes "length buf = 4096" "is_dump_end ms d"
  shows "netlink_recv_loop dbg buf (Inr (datagram (ms @ [d])) # q) acc = Some (Inr (acc @ ms))"
proof -
  let ?b = "recv_into buf (datagram (ms @ [d]))" and ?n = "length (datagram (ms @ [d]))"
  have n: "?n \<le> 4096" "0 < ?n" using assms(2) datagram_pos [of "ms @ [d]"] by (auto simp: is_dump_end_def)
  have b: "?b = [] @ datagram ms @ message_bytes d @ drop ?n buf"
    using assms(1) n by (simp add: recv_into_fits)
  have "message_scan dbg ?b ?n (length ([]::u8 list)) acc False =
      message_scan dbg ?b ?n (length ([] @ datagram ms)) (acc @ ms) (if ms = [] then False else True)"
    by (rule message_scan_datagram [OF _ b]) (use assms(2) in \<open>auto simp: is_dump_end_def\<close>)
  also have "\<dots> = ScanDone (acc @ ms)"
    using assms(2) message_scan_step [of d "datagram ms" ?n ?b "drop ?n buf"] b datagram_pos [of "[d]"]
    by (simp add: is_dump_end_def)
  finally show ?thesis using n assms(1)
    by (simp add: Let_def split del: if_split) (auto simp: length_greater_0_conv [symmetric] simp del: length_greater_0_conv)
qed

lemma netlink_recv_dump_loop:
  assumes "\<forall>ms \<in> set parts. is_dump_part ms" "is_dump_end ms d" "length buf = 4096"
  shows "netlink_recv_loop dbg buf (map (Inr \<circ> datagram) parts @ Inr (datagram (ms @ [d])) # q) acc =
    Some (Inr (acc @ concat parts @ ms))"
  using assms
proof (induction parts arbitrary: buf acc)
  case Nil
  then show ?case using recv_loop_end [OF Nil.prems(3,2)] by simp
next
  case (Cons p parts)
  then obtain buf' where "length buf' = 4096"
    "netlink_recv_loop dbg buf (Inr (datagram p) # map (Inr \<circ> datagram) parts @ Inr (datagram (ms @ [d])) # q) acc =
     netlink_recv_loop dbg buf' (map (Inr \<circ> datagram) parts @ Inr (datagram (ms @ [d])) # q) (acc @ p)"
    using recv_loop_part [of buf p dbg "map (Inr \<circ> datagram) parts @ Inr (datagram (ms @ [d])) # q" acc] Cons.prems
    by (metis list.set_intros(1))
  then show ?case using Cons.IH [of buf' "acc @ p"] Cons.prems
    by (simp add: comp_def del: netlink_recv_loop.simps)
qed

section \<open>Encoding a route\<close>

fun ip_bytes :: "ip_addr \<Rightarrow> u8 list" where
  "ip_bytes (V4 ip) = octets ip"
| "ip_bytes (V6 ip) = concat (map u16_to_be_bytes (segments ip))"

fun ip_family :: "ip_addr \<Rightarrow> u8" where
  "ip_family (V4 ip) = AF_INET"
| "ip_family (V6 ip) = AF_INET6"

definition opt_attr :: "u16 \<Rightarrow> ('a \<Rightarrow> u8 list) \<Rightarrow> 'a option \<Rightarrow> (u16 \<times> u8 list) list" where
  "opt_attr ty enc x = (case x of None \<Rightarrow> [] | Some v \<Rightarrow> [(ty, enc v)])"

definition route_attrs :: "route_entry \<Rightarrow> (u16 \<times> u8 list) list" where
  "route_attrs r =
     opt_attr RTA_TABLE (to_le_bytes 4) (re_table r) @ opt_attr RTA_DST ip_bytes (re_destination r) @
     opt_attr RTA_IIF (to_le_bytes 4) (re_in_if_index r) @ opt_attr RTA_PRIORITY (to_le_bytes 4) (re_priority r) @
     opt_attr RTA_PREFSRC ip_bytes (re_pref_src r) @ opt_attr RTA_GATEWAY ip_bytes (re_gateway r) @
     opt_attr RTA_OIF (to_le_bytes 4) (re_out_if_index r)"

definition route_message :: "u32 \<Rightarrow> u32 \<Rightarrow> rtmsg \<Rightarrow> route_entry \<Rightarrow> netlink_message" where
  "route_message sq pid rt r =
     (let data = rtmsg_bytes rt @ attrs_bytes (route_attrs r) in
      \<lparr>nm_header = \<lparr>nlmsg_len = of_nat (16 + length data), nlmsg_type = RTM_NEWROUTE,
         nlmsg_flags = NLM_F_MULTI, nlmsg_seq = sq, nlmsg_pid = pid\<rparr>,
       nm_data = data, nm_error = None\<rparr>)"

text \<open>The header agrees with the entry, and the addresses are of the entry's family.\<close>

definition route_agrees :: "rtmsg \<Rightarrow> route_entry \<Rightarrow> bool" where
  "route_agrees rt r \<longleftrightarrow>
     rtm_family rt = re_family r \<and> rtm_dst_len rt = re_dst_len r \<and> rtm_protocol rt = re_protocol r \<and>
     rtm_scope rt = re_scope r \<and> rtm_type rt = re_type r \<and>
     (\<forall>ip. re_destination r = Some ip \<or> re_gateway r = Some ip \<or> re_pref_src r = Some ip
        \<longrightarrow> ip_family ip = re_family r)"

lemma parse_ip_bytes: "parse_ip_address (ip_bytes ip) (ip_family ip) = Inr (Some ip)"
proof (cases ip)
  case (V4 a)
  then show ?thesis by (cases a) (simp add: parse_ip_address_def index_range_ok)
next
  case (V6 a)
  then show ?thesis
    by (cases a) (simp add: parse_ip_address_def index_range_ok u16_to_be_bytes_def Let_def
        u16_be_bytes_roundtrip [OF u16_to_be_bytes_def, unfolded u16_from_be_bytes_def])
qed

lemma length_rtmsg_bytes [simp]: "length (rtmsg_bytes rt) = 12"
  by (simp add: rtmsg_bytes_def)

lemma read_rtmsg_bytes: "read_rtmsg (rtmsg_bytes rt @ rest) = Inr rt"
  by (simp add: read_rtmsg_def read_unaligned_append) (simp add: rtmsg_bytes_def field_def from_to_le_bytes)

lemma opt_attr_lookup:
  "map_of (rev (map (\<lambda>a. (attr_key a, attr_value a)) (opt_attr ty enc x))) k =
     (if ty AND NLA_TYPE_MASK = k then map_option (\<lambda>v. attr_value (ty, enc v)) x else None)"
  by (cases x) (simp_all add: opt_attr_def attr_key_def)

lemma opt_attr_wf:
  "(\<And>v. length (enc v) \<le> 16) \<Longrightarrow> \<forall>a \<in> set (opt_attr ty enc x). attr_wf a"
  by (cases x) (simp_all add: opt_attr_def attr_wf_def le_less_trans [where y = 16])

lemma length_ip_bytes: "length (ip_bytes ip) \<le> 16"
proof (cases ip)
  case (V6 a)
  then show ?thesis by (cases a) (simp add: u16_to_be_bytes_def)
qed simp

lemma route_attrs_wf: "\<forall>a \<in> set (route_attrs r). attr_wf a"
  unfolding route_attrs_def set_append ball_Un
  by (intro conjI opt_attr_wf) (simp_all add: length_ip_bytes)

lemma na_data_attr_value [simp]: "na_data (attr_value (ty, data)) = data"
  by (simp add: attr_value_def)

lemma u32_from_to_ne_bytes: "u32_from_ne_bytes (to_le_bytes 4 v) = Some v"
  by (simp add: u32_from_ne_bytes_def subslice_def from_to_le_bytes)

lemma parse_route_message:
  assumes "route_agrees rt r"
  shows "parse_rtm_newroute (route_message sq pid rt r) = Inr (Some r)"
proof -
  have fam: "re_destination r = Some ip \<or> re_gateway r = Some ip \<or> re_pref_src r = Some ip \<Longrightarrow>
      parse_ip_address (ip_bytes ip) (re_family r) = Inr (Some ip)" for ip
    using assms parse_ip_bytes [of ip] unfolding route_agrees_def by metis
  have ips: "attr_field attrs ty (\<lambda>d. parse_ip_address d (re_family r)) = Inr x"
    if "attrs ty = map_option (\<lambda>v. attr_value (ty, ip_bytes v)) x"
      "x \<in> {re_destination r, re_gateway r, re_pref_src r}" for attrs x ty
    using fam that by (cases x) (auto simp: attr_field_def)
  have nums: "Option.bind (map_option (\<lambda>v. attr_value (ty, to_le_bytes 4 v)) x)
      (\<lambda>a. u32_from_ne_bytes (na_data a)) = x" for x ty
    by (cases x) (simp_all add: u32_from_to_ne_bytes)
  define m where "m = map_of (rev (map (\<lambda>a. (attr_key a, attr_value a)) (route_attrs r)))"
  have lookup: "m RTA_DST = map_option (\<lambda>v. attr_value (RTA_DST, ip_bytes v)) (re_destination r)"
    "m RTA_GATEWAY = map_option (\<lambda>v. attr_value (RTA_GATEWAY, ip_bytes v)) (re_gateway r)"
    "m RTA_PREFSRC = map_option (\<lambda>v. attr_value (RTA_PREFSRC, ip_bytes v)) (re_pref_src r)"
    "m RTA_OIF = map_option (\<lambda>v. attr_value (RTA_OIF, to_le_bytes 4 v)) (re_out_if_index r)"
    "m RTA_IIF = map_option (\<lambda>v. attr_value (RTA_IIF, to_le_bytes 4 v)) (re_in_if_index r)"
    "m RTA_PRIORITY = map_option (\<lambda>v. attr_value (RTA_PRIORITY, to_le_bytes 4 v)) (re_priority r)"
    "m RTA_TABLE = map_option (\<lambda>v. attr_value (RTA_TABLE, to_le_bytes 4 v)) (re_table r)"
    unfolding m_def route_attrs_def map_append rev_append map_of_append map_add_def opt_attr_lookup
    by (simp_all split: option.split)
  have "parse_attrs (drop 12 (nm_data (route_message sq pid rt r))) = Inr (Inr m)"
    unfolding m_def using parse_attrs_bytes [OF route_attrs_wf, of r] by (simp add: route_message_def Let_def)
  moreover have "read_rtmsg (nm_data (route_message sq pid rt r)) = Inr rt"
    "12 \<le> length (nm_data (route_message sq pid rt r))"
    by (simp_all add: route_message_def Let_def read_rtmsg_bytes)
  moreover have "rtm_family rt = re_family r" "rtm_dst_len rt = re_dst_len r"
    "rtm_protocol rt = re_protocol r" "rtm_scope rt = re_scope r" "rtm_type rt = re_type r"
    using assms by (simp_all add: route_agrees_def)
  ultimately show ?thesis
    using ips [of m RTA_DST, OF lookup(1)] ips [of m RTA_GATEWAY, OF lookup(2)] ips [of m RTA_PREFSRC, OF lookup(3)]
    by (simp add: parse_rtm_newroute_def lookup nums)
qed

section \<open>Properties\<close>

text \<open>
  C9. Attributes: \<^verbatim>\<open>parse_attrs\<close> reads back what the netlink format encodes. For every list of
  attributes (any types, any data that fits the 16-bit length), parsing the concatenation of
  their padded encodings succeeds and maps each masked type to the last attribute of that type,
  with its header and its data unpadded.
\<close>

theorem parse_attrs_roundtrip:
  assumes "\<forall>a \<in> set as. attr_wf a"
  shows "parse_attrs (attrs_bytes as) =
    Inr (Inr (map_of (rev (map (\<lambda>a. (attr_key a, attr_value a)) as))))"
  by (rule parse_attrs_bytes [OF assms])

theorem parse_attrs_roundtrip_witness:
  "attrs_bytes [(1, [10, 0, 0]), (4, [7, 0, 0, 0])] = [7, 0, 1, 0, 10, 0, 0, 0, 8, 0, 4, 0, 7, 0, 0, 0] \<and>
   parse_attrs (attrs_bytes [(1, [10, 0, 0]), (4, [7, 0, 0, 0])]) =
     Inr (Inr (map_of (rev (map (\<lambda>a. (attr_key a, attr_value a)) [(1, [10, 0, 0]), (4, [7, 0, 0, 0])]))))"
proof
  show "parse_attrs (attrs_bytes [(1, [10, 0, 0]), (4, [7, 0, 0, 0])]) =
     Inr (Inr (map_of (rev (map (\<lambda>a. (attr_key a, attr_value a)) [(1, [10, 0, 0]), (4, [7, 0, 0, 0])]))))"
    by (rule parse_attrs_roundtrip) (simp add: attr_wf_def)
  show "attrs_bytes [(1, [10, 0, 0]), (4, [7, 0, 0, 0])] = [7, 0, 1, 0, 10, 0, 0, 0, 8, 0, 4, 0, 7, 0, 0, 0]"
    by code_simp
qed

text \<open>
  C10. \<^verbatim>\<open>NetlinkSocket::recv\<close> reassembles a dump: when the kernel answers with any number of
  multipart datagrams (each of at most 4096 bytes, each a sequence of well-formed messages)
  and closes with a datagram that ends in \<^verbatim>\<open>NLMSG_DONE\<close>, the call returns, and it returns
  exactly the messages sent, in order, whatever the buffer held from earlier datagrams and
  whatever the kernel would send afterwards.
\<close>

theorem netlink_recv_dump:
  assumes "\<forall>ms \<in> set parts. is_dump_part ms" "is_dump_end ms d"
  shows "netlink_recv dbg (map (Inr \<circ> datagram) parts @ Inr (datagram (ms @ [d])) # q) =
    Some (Inr (concat parts @ ms))"
  using netlink_recv_dump_loop [OF assms, of "replicate 4096 0" dbg q "[]"] by (simp add: netlink_recv_def)

definition multi_message :: "u16 \<Rightarrow> u8 list \<Rightarrow> netlink_message" where
  "multi_message ty data =
     \<lparr>nm_header = \<lparr>nlmsg_len = of_nat (16 + length data), nlmsg_type = ty,
        nlmsg_flags = NLM_F_MULTI, nlmsg_seq = 1, nlmsg_pid = 7\<rparr>, nm_data = data, nm_error = None\<rparr>"

theorem netlink_recv_dump_witness:
  "netlink_recv True (map (Inr \<circ> datagram) [[multi_message 24 [1, 2, 3], multi_message 24 [4]]] @
      Inr (datagram ([multi_message 28 [5]] @ [multi_message NLMSG_DONE [0, 0, 0, 0]])) # []) =
    Some (Inr (concat [[multi_message 24 [1, 2, 3], multi_message 24 [4]]] @ [multi_message 28 [5]]))"
  by (rule netlink_recv_dump)
    (simp_all add: is_dump_part_def is_dump_end_def datagram_def length_message_bytes message_wf_def
      is_multi_def multi_message_def)

text \<open>
  C11. No answer of the kernel makes the parsers misbehave: whatever the datagrams contain, if
  a query of routes or of neighbours returns, it returns a list or an I/O error. No slice is
  out of range, no \<^verbatim>\<open>read_unaligned\<close> of a header, an error, an attribute or a fixed part leaves its
  buffer, and \<^verbatim>\<open>message.error.unwrap()\<close> is never reached on \<^verbatim>\<open>None\<close>. In a release build there is
  no panic at all; in a debug build the only one is the negation of the error number
  \<^verbatim>\<open>i32::MIN\<close>.
\<close>

theorem netlink_queries_safe:
  assumes "netlink_get_routes dbg sys family = Some r"
    and "netlink_get_neighbors dbg sys' if_index family' = Some r'"
  shows "memory_safe dbg r \<and> memory_safe dbg r'"
  using assms unfolding netlink_get_routes_def netlink_get_neighbors_def
  by (blast intro: query_safe collect_safe parse_safe)

definition answering :: "u8 list \<Rightarrow> netlink_sys" where
  "answering bytes = \<lparr>nl_socket = Inr 3, nl_setsockopt = None, nl_getsockname = Inr 7,
     nl_send = (\<lambda>_. None), nl_answer = (\<lambda>_. [Inr bytes, Inl 11])\<rparr>"

lemma answering_returns: "\<exists>r. query dbg (answering bytes) req k = Some r"
  by (auto simp: query_def answering_def netlink_open_def netlink_send_def netlink_recv_def Let_def
      split: scan_result.split)

theorem netlink_queries_safe_witness:
  "memory_safe True (the (netlink_get_routes True (answering (replicate 20 0xFF)) AF_INET)) \<and>
   memory_safe True (the (netlink_get_neighbors True (answering (replicate 5 1)) None AF_INET))"
proof (rule netlink_queries_safe)
  show "netlink_get_routes True (answering (replicate 20 0xFF)) AF_INET =
      Some (the (netlink_get_routes True (answering (replicate 20 0xFF)) AF_INET))"
    unfolding netlink_get_routes_def using answering_returns by (metis option.sel)
  show "netlink_get_neighbors True (answering (replicate 5 1)) None AF_INET =
      Some (the (netlink_get_neighbors True (answering (replicate 5 1)) None AF_INET))"
    unfolding netlink_get_neighbors_def using answering_returns by (metis option.sel)
qed

definition table_messages :: "u32 \<Rightarrow> u32 \<Rightarrow> (rtmsg \<times> route_entry) list \<Rightarrow> netlink_message list" where
  "table_messages sq pid tab = map (\<lambda>(rt, r). route_message sq pid rt r) tab"

lemma collect_routes:
  "\<forall>(rt, r) \<in> set xs. route_agrees rt r \<Longrightarrow>
   collect RTM_NEWROUTE 12 parse_rtm_newroute (table_messages sq pid xs) = Inr (map snd xs)"
proof (induction xs)
  case (Cons x xs)
  obtain rt r where x: "x = (rt, r)" by (cases x)
  have "nlmsg_type (nm_header (route_message sq pid rt r)) = RTM_NEWROUTE"
    "12 \<le> length (nm_data (route_message sq pid rt r))" by (simp_all add: route_message_def Let_def)
  then show ?case using Cons x by (simp add: table_messages_def parse_route_message)
qed (simp add: table_messages_def)

text \<open>
  C12. The routing table arrives unchanged: when the kernel answers the request for the routes
  with a dump that encodes a table (every address of its entry's family), in however many
  datagrams, \<^verbatim>\<open>netlink_get_routes\<close> returns exactly the entries of the table, in order.
\<close>

theorem netlink_get_routes_dump:
  assumes "netlink_open sys = Inr sock" "nl_send sys (route_request family) = None"
    and "nl_answer sys (route_request family) =
      map (Inr \<circ> datagram) (map (table_messages sq pid) parts) @
      Inr (datagram (table_messages sq pid final @ [d])) # q"
    and "\<forall>p \<in> set parts. is_dump_part (table_messages sq pid p)"
    and "is_dump_end (table_messages sq pid final) d"
    and "\<forall>(rt, r) \<in> set (concat parts @ final). route_agrees rt r"
  shows "netlink_get_routes dbg sys family = Some (Inr (map snd (concat parts @ final)))"
proof -
  let ?enc = "table_messages sq pid"
  have "netlink_recv_loop dbg (replicate 4096 0) (nl_answer sys (route_request family)) [] =
      Some (Inr ([] @ concat (map ?enc parts) @ ?enc final))"
    unfolding assms(3) by (rule netlink_recv_dump_loop) (use assms(4,5) in auto)
  moreover have "concat (map ?enc parts) @ ?enc final = ?enc (concat parts @ final)"
    unfolding table_messages_def by (simp add: map_concat)
  ultimately show ?thesis
    using assms(1,2) collect_routes [OF assms(6), of sq pid]
    by (simp add: netlink_get_routes_def query_def netlink_send_def netlink_recv_def)
qed

definition lan_route :: route_entry where
  "lan_route = \<lparr>re_destination = Some (V4 (Ipv4Addr 192 168 1 0)), re_gateway = None,
     re_pref_src = Some (V4 (Ipv4Addr 192 168 1 2)), re_out_if_index = Some 2, re_in_if_index = None,
     re_priority = Some 100, re_table = Some 254, re_protocol = 2, re_scope = 253, re_type = 1,
     re_family = AF_INET, re_dst_len = 24\<rparr>"

definition gw_route :: route_entry where
  "gw_route = \<lparr>re_destination = None, re_gateway = Some (V4 (Ipv4Addr 192 168 1 1)),
     re_pref_src = None, re_out_if_index = Some 2, re_in_if_index = None, re_priority = None,
     re_table = Some 254, re_protocol = 3, re_scope = 0, re_type = 1, re_family = AF_INET,
     re_dst_len = 0\<rparr>"

definition rtmsg_of :: "route_entry \<Rightarrow> rtmsg" where
  "rtmsg_of r = \<lparr>rtm_family = re_family r, rtm_dst_len = re_dst_len r, rtm_src_len = 0, rtm_tos = 0,
     rtm_table = RT_TABLE_MAIN, rtm_protocol = re_protocol r, rtm_scope = re_scope r,
     rtm_type = re_type r, rtm_flags = 0\<rparr>"

definition table_kernel :: netlink_sys where
  "table_kernel = \<lparr>nl_socket = Inr 3, nl_setsockopt = None, nl_getsockname = Inr 7,
     nl_send = (\<lambda>_. None),
     nl_answer = (\<lambda>_. map (Inr \<circ> datagram) (map (table_messages 1 7) [[(rtmsg_of gw_route, gw_route)]]) @
       Inr (datagram (table_messages 1 7 [(rtmsg_of lan_route, lan_route)] @
         [multi_message NLMSG_DONE [0, 0, 0, 0]])) # [])\<rparr>"

theorem netlink_get_routes_dump_witness:
  "netlink_get_routes True table_kernel AF_INET = Some (Inr [gw_route, lan_route])"
proof -
  have "netlink_get_routes True table_kernel AF_INET =
      Some (Inr (map snd (concat [[(rtmsg_of gw_route, gw_route)]] @ [(rtmsg_of lan_route, lan_route)])))"
    by (rule netlink_get_routes_dump [where sock = "\<lparr>ns_sock = 3, ns_nl_pid = 7\<rparr>" and sq = 1 and pid = 7
          and d = "multi_message NLMSG_DONE [0, 0, 0, 0]" and q = "[]"])
      (simp_all add: table_kernel_def netlink_open_def table_messages_def route_message_def route_attrs_def
        opt_attr_def attrs_bytes_def length_attr_bytes rtmsg_of_def gw_route_def lan_route_def Let_def
        is_dump_part_def is_dump_end_def datagram_def length_message_bytes message_wf_def is_multi_def
        multi_message_def route_agrees_def rtmsg_bytes_def, auto)
  then show ?thesis by simp
qed

end
