(* ===== verification/Route.thy ===== *)
theory Route
  imports Netlink
begin

text \<open>
  \<^verbatim>\<open>src/src/route.rs\<close>: matching an address against a prefix, the longest-prefix lookup, the
  neighbour table and the router over both.
\<close>

section \<open>Prefix matching\<close>

definition is_ipv4_match :: "ipv4_addr \<Rightarrow> ipv4_addr \<Rightarrow> u8 \<Rightarrow> bool" where
  "is_ipv4_match addr network prefix_len =
     (if prefix_len = 0 then True
      else
        let mask = push_bit (unat (saturating_sub 32 (ucast prefix_len :: u32))) 0xFFFFFFFF;
            addr_bits = ipv4_to_u32 addr AND mask;
            network_bits = ipv4_to_u32 network AND mask
        in addr_bits = network_bits)"

text \<open>\<^term>\<open>None\<close> is the panic of a slice or an index out of range.\<close>

definition is_ipv6_match :: "ipv6_addr \<Rightarrow> ipv6_addr \<Rightarrow> u8 \<Rightarrow> bool option" where
  "is_ipv6_match addr network prefix_len =
     (if prefix_len = 0 then Some True
      else
        let addr_segments = segments addr; network_segments = segments network;
            full_segments = unat (prefix_len div 16) in
        case (subslice 0 full_segments addr_segments, subslice 0 full_segments network_segments) of
          (Some a, Some n) \<Rightarrow>
            if a \<noteq> n then Some False
            else
              let remaining_bits = prefix_len mod 16 in
              if remaining_bits \<noteq> 0 then
                (case (get full_segments addr_segments, get full_segments network_segments) of
                   (Some x, Some y) \<Rightarrow>
                     let mask = push_bit (unat (saturating_sub 16 (ucast remaining_bits :: u16))) 0xFFFF in
                     Some (x AND mask = y AND mask)
                 | _ \<Rightarrow> None)
              else Some True
        | _ \<Rightarrow> None)"

section \<open>The lookup\<close>

text \<open>
  The body of the loop of \<^verbatim>\<open>lookup_route\<close>: the best match so far with its prefix length, and
  \<^term>\<open>None\<close> where a match panics.
\<close>

type_synonym best = "(route_entry \<times> u8) option"

definition better :: "route_entry \<Rightarrow> u8 \<Rightarrow> best \<Rightarrow> best" where
  "better route prefix_len best_match =
     (case best_match of
        None \<Rightarrow> Some (route, prefix_len)
      | Some (_, best_len) \<Rightarrow> if prefix_len > best_len then Some (route, prefix_len) else best_match)"

definition lookup_step :: "ip_addr \<Rightarrow> route_entry \<Rightarrow> best \<Rightarrow> best option" where
  "lookup_step dest route best_match =
     (case (dest, re_destination route) of
        (_, None) \<Rightarrow> Some (if best_match = None then Some (route, 0) else best_match)
      | (V4 dest_addr, Some (V4 route_addr)) \<Rightarrow>
          Some (if \<not> is_ipv4_match dest_addr route_addr (re_dst_len route) then best_match
                else better route (re_dst_len route) best_match)
      | (V6 dest_addr, Some (V6 route_addr)) \<Rightarrow>
          (case is_ipv6_match dest_addr route_addr (re_dst_len route) of
             None \<Rightarrow> None
           | Some matches \<Rightarrow>
               Some (if \<not> matches then best_match else better route (re_dst_len route) best_match))
      | _ \<Rightarrow> Some best_match)"

fun lookup_loop :: "ip_addr \<Rightarrow> route_entry list \<Rightarrow> best \<Rightarrow> best option" where
  "lookup_loop dest [] best_match = Some best_match"
| "lookup_loop dest (route # routes) best_match =
     (case lookup_step dest route best_match of
        None \<Rightarrow> None
      | Some best_match \<Rightarrow> lookup_loop dest routes best_match)"

definition lookup_route :: "route_entry list \<Rightarrow> ip_addr \<Rightarrow> route_entry option option" where
  "lookup_route routes dest =
     (let family = (case dest of V4 _ \<Rightarrow> AF_INET | V6 _ \<Rightarrow> AF_INET6) in
      map_option (map_option fst) (lookup_loop dest (filter (\<lambda>r. re_family r = family) routes) None))"

section \<open>The router\<close>

datatype route_error = NoRouteFound ip_addr | MissingOutputInterface | MacResolutionError

record next_hop =
  nh_mac_addr :: "mac_address option"
  nh_ip_addr :: ip_addr
  nh_if_index :: u32

record arp_table =
  at_neighbors :: "neighbor_entry list"

definition arp_lookup :: "arp_table \<Rightarrow> ip_addr \<Rightarrow> mac_address option" where
  "arp_lookup tab ip =
     Option.bind (List.find (\<lambda>n. ne_destination n = Some ip) (at_neighbors tab)) ne_lladdr"

definition arp_table_new :: "bool \<Rightarrow> netlink_sys \<Rightarrow> arp_table io_result option" where
  "arp_table_new dbg sys =
     map_option (\<lambda>r. rbind r (\<lambda>neighbors. Inr \<lparr>at_neighbors = neighbors\<rparr>))
       (netlink_get_neighbors dbg sys None AF_INET)"

record router =
  rt_arp_table :: arp_table
  rt_routes :: "route_entry list"

definition router_new :: "bool \<Rightarrow> netlink_sys \<Rightarrow> netlink_sys \<Rightarrow> router io_result option" where
  "router_new dbg neigh_sys route_sys =
     (case arp_table_new dbg neigh_sys of
        None \<Rightarrow> None
      | Some (Inl e) \<Rightarrow> Some (Inl e)
      | Some (Inr tab) \<Rightarrow>
          map_option (\<lambda>r. rbind r (\<lambda>routes. Inr \<lparr>rt_arp_table = tab, rt_routes = routes\<rparr>))
            (netlink_get_routes dbg route_sys AF_INET))"

definition router_default :: "router \<Rightarrow> route_error + next_hop" where
  "router_default rt =
     (case List.find (\<lambda>r. re_destination r = None) (rt_routes rt) of
        None \<Rightarrow> Inl (NoRouteFound (V4 ipv4_unspecified))
      | Some default_route \<Rightarrow>
          (case re_out_if_index default_route of
             None \<Rightarrow> Inl MissingOutputInterface
           | Some if_index \<Rightarrow>
               let next_hop_ip =
                 (case re_gateway default_route of Some gateway \<Rightarrow> gateway | None \<Rightarrow> V4 ipv4_unspecified) in
               Inr \<lparr>nh_mac_addr = arp_lookup (rt_arp_table rt) next_hop_ip,
                    nh_ip_addr = next_hop_ip, nh_if_index = if_index\<rparr>))"

text \<open>\<^verbatim>\<open>Router::route\<close>; \<^term>\<open>None\<close> is the panic of the lookup.\<close>

definition router_route :: "router \<Rightarrow> ip_addr \<Rightarrow> (route_error + next_hop) option" where
  "router_route rt dest_ip =
     map_option (\<lambda>found. case found of
        None \<Rightarrow> Inl (NoRouteFound dest_ip)
      | Some route \<Rightarrow>
          (case re_out_if_index route of
             None \<Rightarrow> Inl MissingOutputInterface
           | Some if_index \<Rightarrow>
               let next_hop_ip =
                 (case re_gateway route of Some gateway \<Rightarrow> gateway | None \<Rightarrow> dest_ip) in
               Inr \<lparr>nh_mac_addr = arp_lookup (rt_arp_table rt) next_hop_ip,
                    nh_ip_addr = next_hop_ip, nh_if_index = if_index\<rparr>))
       (lookup_route (rt_routes rt) dest_ip)"

section \<open>What matching means\<close>

text \<open>Bit \<open>i\<close> of an address, counted from the most significant one.\<close>

definition v4_bit :: "ipv4_addr \<Rightarrow> nat \<Rightarrow> bool" where
  "v4_bit a i = bit (ipv4_to_u32 a) (31 - i)"

definition v6_bit :: "ipv6_addr \<Rightarrow> nat \<Rightarrow> bool" where
  "v6_bit a i = bit (segments a ! (i div 16)) (15 - i mod 16)"

locale prefix_matcher =
  fixes width :: nat
    and abit :: "'a \<Rightarrow> nat \<Rightarrow> bool"
    and matches :: "'a \<Rightarrow> 'a \<Rightarrow> u8 \<Rightarrow> bool option"
  assumes matches_eq: "unat p \<le> width \<Longrightarrow> matches a n p = Some (\<forall>i < unat p. abit a i = abit n i)"
begin

lemma match_self: "unat p \<le> width \<Longrightarrow> matches a a p = Some True"
  by (simp add: matches_eq)

lemma match_shorter:
  "matches a n p = Some True \<Longrightarrow> unat p \<le> width \<Longrightarrow> q \<le> p \<Longrightarrow> matches a n q = Some True"
  by (auto simp: matches_eq word_le_nat_alt)

lemma match_nested:
  assumes "matches a n p = Some True" "matches a n' q = Some True" "unat p \<le> width" "q \<le> p"
  shows "matches n n' q = Some True"
  using assms by (auto simp: matches_eq word_le_nat_alt)

end

lemma and_high_mask_eq:
  fixes x y :: "'a::len word"
  shows "x AND NOT (mask k) = y AND NOT (mask k) \<longleftrightarrow>
    (\<forall>n. k \<le> n \<and> n < LENGTH('a) \<longrightarrow> bit x n = bit y n)"
  by (auto simp: bit_eq_iff bit_simps)

lemma all_ones_shifted:
  "push_bit k (0xFFFFFFFF :: u32) = NOT (mask k)" "push_bit k (0xFFFF :: u16) = NOT (mask k)"
proof -
  have "(0xFFFFFFFF :: u32) = - 1" "(0xFFFF :: u16) = - 1" by simp_all
  then show "push_bit k (0xFFFFFFFF :: u32) = NOT (mask k)" "push_bit k (0xFFFF :: u16) = NOT (mask k)"
    by (simp_all only: push_bit_minus_one_eq_not_mask)
qed

lemma high_bits_reindex:
  fixes x y :: "'a::len word"
  assumes "r \<le> LENGTH('a)"
  shows "(\<forall>n. LENGTH('a) - r \<le> n \<and> n < LENGTH('a) \<longrightarrow> bit x n = bit y n) \<longleftrightarrow>
    (\<forall>i < r. bit x (LENGTH('a) - 1 - i) = bit y (LENGTH('a) - 1 - i))"
proof
  assume l: "\<forall>n. LENGTH('a) - r \<le> n \<and> n < LENGTH('a) \<longrightarrow> bit x n = bit y n"
  show "\<forall>i < r. bit x (LENGTH('a) - 1 - i) = bit y (LENGTH('a) - 1 - i)"
  proof (intro allI impI)
    fix i assume "i < r"
    then have "LENGTH('a) - r \<le> LENGTH('a) - 1 - i" "LENGTH('a) - 1 - i < LENGTH('a)" by auto
    then show "bit x (LENGTH('a) - 1 - i) = bit y (LENGTH('a) - 1 - i)" using l by blast
  qed
next
  assume i: "\<forall>i < r. bit x (LENGTH('a) - 1 - i) = bit y (LENGTH('a) - 1 - i)"
  show "\<forall>n. LENGTH('a) - r \<le> n \<and> n < LENGTH('a) \<longrightarrow> bit x n = bit y n"
  proof (intro allI impI)
    fix n assume "LENGTH('a) - r \<le> n \<and> n < LENGTH('a)"
    then have "LENGTH('a) - 1 - n < r" "LENGTH('a) - 1 - (LENGTH('a) - 1 - n) = n" using assms by auto
    then show "bit x n = bit y n" using i by metis
  qed
qed

lemma is_ipv4_match_bits:
  assumes "unat p \<le> 32"
  shows "is_ipv4_match a n p \<longleftrightarrow> (\<forall>i < unat p. v4_bit a i = v4_bit n i)"
proof (cases "p = 0")
  case False
  have up: "unat (ucast p :: u32) = unat p" by (simp add: unat_ucast_up)
  then have "unat (saturating_sub 32 (ucast p :: u32)) = 32 - unat p"
    using assms by (simp add: saturating_sub_def word_less_nat_alt unat_sub word_le_nat_alt)
  then have "is_ipv4_match a n p \<longleftrightarrow>
      ipv4_to_u32 a AND NOT (mask (32 - unat p)) = ipv4_to_u32 n AND NOT (mask (32 - unat p))"
    using False by (simp add: is_ipv4_match_def all_ones_shifted Let_def)
  then show ?thesis
    using assms high_bits_reindex [of "unat p" "ipv4_to_u32 a" "ipv4_to_u32 n"]
    by (simp add: and_high_mask_eq v4_bit_def)
qed (simp add: is_ipv4_match_def)

lemma split_segments:
  "(\<forall>i < 16 * f + r. P i) \<longleftrightarrow> (\<forall>j < f. \<forall>t < 16. P (16 * j + t)) \<and> (\<forall>t < r. P (16 * f + t))" for f r :: nat
proof (intro iffI conjI allI impI)
  fix i assume a: "(\<forall>j < f. \<forall>t < 16. P (16 * j + t)) \<and> (\<forall>t < r. P (16 * f + t))" and i: "i < 16 * f + r"
  show "P i"
  proof (cases "i < 16 * f")
    case True
    then have "i div 16 < f" "i mod 16 < 16" "16 * (i div 16) + i mod 16 = i" by auto
    then show ?thesis using a by metis
  next
    case False
    then have "i - 16 * f < r" "16 * f + (i - 16 * f) = i" using i by auto
    then show ?thesis using a by metis
  qed
qed auto

lemma segment_eq_bits:
  fixes x y :: u16 shows "x = y \<longleftrightarrow> (\<forall>t < 16. bit x (15 - t) = bit y (15 - t))"
  using high_bits_reindex [of 16 x y] by (auto intro: bit_word_eqI)

lemma is_ipv6_match_bits:
  assumes "unat p \<le> 128"
  shows "is_ipv6_match a n p = Some (\<forall>i < unat p. v6_bit a i = v6_bit n i)"
proof -
  define f r where "f = unat p div 16" and "r = unat p mod 16"
  have p: "unat p = 16 * f + r" "r < 16" "f \<le> 8" using assms by (auto simp: f_def r_def)
  have u: "unat (p div 16) = f" "unat (p mod 16) = r"
    by (simp_all add: f_def r_def unat_div unat_mod)
  have fr: "f = 8 \<Longrightarrow> r = 0" using assms p by simp
  let ?a = "segments a" and ?n = "segments n"
  have full: "take f ?a = take f ?n \<longleftrightarrow> (\<forall>j < f. \<forall>t < 16. v6_bit a (16 * j + t) = v6_bit n (16 * j + t))"
    using p(3) by (simp add: list_eq_iff_nth_eq v6_bit_def segment_eq_bits)
  have rest: "?a ! f AND NOT (mask (16 - r)) = ?n ! f AND NOT (mask (16 - r)) \<longleftrightarrow>
      (\<forall>t < r. v6_bit a (16 * f + t) = v6_bit n (16 * f + t))"
    using high_bits_reindex [of r "?a ! f" "?n ! f"] p(2) by (simp add: and_high_mask_eq v6_bit_def)
  have "unat (saturating_sub 16 (ucast (p mod 16) :: u16)) = 16 - r"
    using p(2) u(2) by (simp add: saturating_sub_def word_less_nat_alt unat_sub word_le_nat_alt unat_ucast_up)
  moreover have "p mod 16 = 0 \<longleftrightarrow> r = 0" using u(2) by (metis unat_eq_0)
  moreover have "p = 0 \<longleftrightarrow> f = 0 \<and> r = 0" using p(1) by (metis unat_eq_0 add_is_0 mult_is_0 zero_neq_numeral)
  moreover have "subslice 0 f ?a = Some (take f ?a)" "subslice 0 f ?n = Some (take f ?n)"
    using p(3) by (simp_all add: subslice_def)
  moreover have "r \<noteq> 0 \<Longrightarrow> get f ?a = Some (?a ! f) \<and> get f ?n = Some (?n ! f)"
    using p(3) fr by (auto simp: get_def)
  moreover have "(\<forall>i < unat p. v6_bit a i = v6_bit n i) \<longleftrightarrow>
      take f ?a = take f ?n \<and> (?a ! f AND NOT (mask (16 - r)) = ?n ! f AND NOT (mask (16 - r)))"
    unfolding full rest p(1) by (rule split_segments)
  moreover have "x AND NOT (mask 16) = (0 :: u16)" for x
    by (rule bit_word_eqI) (simp add: bit_simps)
  ultimately show ?thesis
    by (cases "r = 0") (simp_all add: is_ipv6_match_def Let_def all_ones_shifted u)
qed

interpretation v4: prefix_matcher 32 v4_bit "\<lambda>a n p. Some (is_ipv4_match a n p)"
  by unfold_locales (simp add: is_ipv4_match_bits)

interpretation v6: prefix_matcher 128 v6_bit is_ipv6_match
  by unfold_locales (rule is_ipv6_match_bits)

section \<open>The lookup finds the first longest match\<close>

text \<open>
  The specification, on bits and without the matching functions: a route covers a destination
  when the families agree and it is the default route or the destination agrees with the
  route's network on the first \<^verbatim>\<open>dst_len\<close> bits.
\<close>

definition covers :: "ip_addr \<Rightarrow> route_entry \<Rightarrow> bool" where
  "covers dest r \<longleftrightarrow> re_family r = ip_family dest \<and>
     (case (dest, re_destination r) of
        (_, None) \<Rightarrow> True
      | (V4 a, Some (V4 n)) \<Rightarrow> (\<forall>i < unat (re_dst_len r). v4_bit a i = v4_bit n i)
      | (V6 a, Some (V6 n)) \<Rightarrow> (\<forall>i < unat (re_dst_len r). v6_bit a i = v6_bit n i)
      | _ \<Rightarrow> False)"

definition prefix_of :: "route_entry \<Rightarrow> u8" where
  "prefix_of r = (if re_destination r = None then 0 else re_dst_len r)"

definition route_wf :: "route_entry \<Rightarrow> bool" where
  "route_wf r \<longleftrightarrow> (case re_destination r of
      None \<Rightarrow> True | Some (V4 _) \<Rightarrow> re_dst_len r \<le> 32 | Some (V6 _) \<Rightarrow> re_dst_len r \<le> 128)"

definition first_longest :: "ip_addr \<Rightarrow> route_entry list \<Rightarrow> route_entry \<Rightarrow> bool" where
  "first_longest dest routes r \<longleftrightarrow> (\<exists>pre post. routes = pre @ r # post \<and> covers dest r \<and>
     (\<forall>r' \<in> set pre. covers dest r' \<longrightarrow> prefix_of r' < prefix_of r) \<and>
     (\<forall>r' \<in> set post. covers dest r' \<longrightarrow> prefix_of r' \<le> prefix_of r))"

lemma lookup_step_covers:
  assumes "route_wf r" "re_family r = ip_family dest"
  shows "lookup_step dest r b = Some (if covers dest r then better r (prefix_of r) b else b)"
proof (cases "re_destination r")
  case None
  then show ?thesis
    using assms(2)
    by (cases dest) (auto simp: lookup_step_def covers_def prefix_of_def better_def split: option.split)
next
  case (Some n)
  have "unat (re_dst_len r) \<le> 32" if "n = V4 x" for x
    using assms(1) Some that by (simp add: route_wf_def word_le_nat_alt)
  moreover have "unat (re_dst_len r) \<le> 128" if "n = V6 x" for x
    using assms(1) Some that by (simp add: route_wf_def word_le_nat_alt)
  ultimately show ?thesis
    using Some assms(2)
    by (cases dest; cases n)
      (auto simp: lookup_step_def covers_def prefix_of_def is_ipv4_match_bits is_ipv6_match_bits)
qed

lemma lookup_loop_append:
  "lookup_loop dest (xs @ ys) b = Option.bind (lookup_loop dest xs b) (lookup_loop dest ys)"
  by (induction xs arbitrary: b) (auto split: option.split)

lemma first_longest_max:
  "first_longest dest xs r \<Longrightarrow> r' \<in> set xs \<Longrightarrow> covers dest r' \<Longrightarrow> prefix_of r' \<le> prefix_of r"
  by (fastforce simp: first_longest_def)

lemma first_longest_snoc:
  assumes "first_longest dest xs r" "covers dest x \<Longrightarrow> prefix_of x \<le> prefix_of r"
  shows "first_longest dest (xs @ [x]) r"
  using assms unfolding first_longest_def by (fastforce intro: exI [of _ "_ @ [x]"])

lemma first_longest_new:
  assumes "covers dest x" "\<forall>r \<in> set xs. covers dest r \<longrightarrow> prefix_of r < prefix_of x"
  shows "first_longest dest (xs @ [x]) x"
  using assms unfolding first_longest_def by (intro exI [of _ xs] exI [of _ "[]"]) simp

definition best_of :: "ip_addr \<Rightarrow> route_entry list \<Rightarrow> best \<Rightarrow> bool" where
  "best_of dest xs b \<longleftrightarrow> (case b of
     None \<Rightarrow> \<forall>r \<in> set xs. \<not> covers dest r
   | Some (r, l) \<Rightarrow> l = prefix_of r \<and> first_longest dest xs r)"

lemma best_of_snoc:
  assumes "best_of dest xs b"
  shows "best_of dest (xs @ [x]) (if covers dest x then better x (prefix_of x) b else b)"
proof (cases b)
  case None
  then show ?thesis
    using assms by (auto simp: best_of_def better_def intro: first_longest_new)
next
  case (Some p)
  obtain r l where p: "p = (r, l)" by (cases p)
  then have r: "l = prefix_of r" "first_longest dest xs r" using assms Some by (auto simp: best_of_def)
  have "first_longest dest (xs @ [x]) x" if "covers dest x" "prefix_of r < prefix_of x"
    using that first_longest_max [OF r(2)] by (blast intro: first_longest_new le_less_trans)
  moreover have "first_longest dest (xs @ [x]) r" if "covers dest x \<Longrightarrow> \<not> prefix_of r < prefix_of x"
    by (rule first_longest_snoc [OF r(2)]) (use that in auto)
  ultimately show ?thesis using Some p r by (auto simp: best_of_def better_def)
qed

lemma lookup_loop_best:
  "\<forall>r \<in> set routes. route_wf r \<Longrightarrow>
   \<exists>b. lookup_loop dest (filter (\<lambda>r. re_family r = ip_family dest) routes) None = Some b \<and> best_of dest routes b"
proof (induction routes rule: rev_induct)
  case Nil
  then show ?case by (simp add: best_of_def)
next
  case (snoc x xs)
  then obtain b where b: "best_of dest xs b"
    "lookup_loop dest (filter (\<lambda>r. re_family r = ip_family dest) xs) None = Some b" by auto
  have "re_family x \<noteq> ip_family dest \<Longrightarrow> \<not> covers dest x" by (simp add: covers_def)
  then show ?case
    using b best_of_snoc [OF b(1), of x] snoc.prems lookup_step_covers [of x dest b]
    by (auto simp: lookup_loop_append)
qed

lemma lookup_route_family:
  "lookup_route routes dest =
     map_option (map_option fst) (lookup_loop dest (filter (\<lambda>r. re_family r = ip_family dest) routes) None)"
  by (cases dest) (simp_all add: lookup_route_def)

text \<open>
  C13. Longest-prefix match: on a table whose prefix lengths fit their family, the lookup never
  panics; it finds nothing exactly when no route covers the destination; and what it finds
  covers the destination, with the longest prefix of all routes that do, the first of the
  table among those of that length. Covering is equality of the first \<^verbatim>\<open>dst_len\<close> bits, for IPv4
  and for IPv6.
\<close>

theorem lookup_route_longest_prefix:
  assumes "\<forall>r \<in> set routes. route_wf r"
  shows "case lookup_route routes dest of
      None \<Rightarrow> False
    | Some None \<Rightarrow> \<forall>r \<in> set routes. \<not> covers dest r
    | Some (Some r) \<Rightarrow> first_longest dest routes r"
proof -
  obtain b where "lookup_loop dest (filter (\<lambda>r. re_family r = ip_family dest) routes) None = Some b"
    "best_of dest routes b" using lookup_loop_best [OF assms] by blast
  then show ?thesis by (cases b) (auto simp: lookup_route_family best_of_def)
qed

theorem lookup_route_longest_prefix_witness:
  "(case lookup_route [gw_route, lan_route] (V4 (Ipv4Addr 192 168 1 77)) of
      None \<Rightarrow> False
    | Some None \<Rightarrow> \<forall>r \<in> set [gw_route, lan_route]. \<not> covers (V4 (Ipv4Addr 192 168 1 77)) r
    | Some (Some r) \<Rightarrow> first_longest (V4 (Ipv4Addr 192 168 1 77)) [gw_route, lan_route] r) \<and>
   lookup_route [gw_route, lan_route] (V4 (Ipv4Addr 192 168 1 77)) = Some (Some lan_route) \<and>
   lookup_route [gw_route, lan_route] (V4 (Ipv4Addr 192 168 2 77)) = Some (Some gw_route)"
proof (intro conjI)
  show "lookup_route [gw_route, lan_route] (V4 (Ipv4Addr 192 168 1 77)) = Some (Some lan_route)" by code_simp
  show "lookup_route [gw_route, lan_route] (V4 (Ipv4Addr 192 168 2 77)) = Some (Some gw_route)" by code_simp
qed (rule lookup_route_longest_prefix, simp add: route_wf_def gw_route_def lan_route_def)

lemma lookup_route_v4_total: "lookup_route routes (V4 a) \<noteq> None"
proof -
  have "lookup_step (V4 a) r b \<noteq> None" for r b
    by (auto simp: lookup_step_def split: option.split ip_addr.split)
  then have "lookup_loop (V4 a) xs b \<noteq> None" for xs b
    by (induction xs arbitrary: b) (auto split: option.split)
  then show ?thesis by (simp add: lookup_route_def)
qed

text \<open>
  \<open>resolved ns ip mac\<close>: the address \<open>ip\<close> resolves to \<open>mac\<close> in a neighbour table. Either no
  neighbour has the address and there is no MAC, or the first neighbour that has it decides.
\<close>

definition resolved :: "neighbor_entry list \<Rightarrow> ip_addr \<Rightarrow> mac_address option \<Rightarrow> bool" where
  "resolved ns ip mac \<longleftrightarrow>
     (\<forall>n \<in> set ns. ne_destination n \<noteq> Some ip) \<and> mac = None \<or>
     (\<exists>i < length ns. ne_destination (ns ! i) = Some ip \<and> ne_lladdr (ns ! i) = mac \<and>
        (\<forall>j < i. ne_destination (ns ! j) \<noteq> Some ip))"

lemma arp_lookup_resolved: "resolved (at_neighbors tab) ip (arp_lookup tab ip)"
proof (cases "List.find (\<lambda>n. ne_destination n = Some ip) (at_neighbors tab)")
  case None
  then show ?thesis by (simp add: resolved_def arp_lookup_def) (simp add: find_None_iff)
next
  case (Some n)
  then obtain i where "i < length (at_neighbors tab)" "ne_destination (at_neighbors tab ! i) = Some ip"
    "n = at_neighbors tab ! i" "\<forall>j < i. ne_destination (at_neighbors tab ! j) \<noteq> Some ip"
    by (auto simp: find_Some_iff)
  then show ?thesis using Some by (auto simp: resolved_def arp_lookup_def)
qed

text \<open>
  C14. Routing a packet: \<^verbatim>\<open>Router::route\<close> on an IPv4 destination never panics, and when it
  answers with a next hop, that hop comes from the first longest match: its interface is the
  route's, its address is the route's gateway or, for a directly connected network, the
  destination itself, and its MAC address is the one the first neighbour with that address has:
  none if no neighbour has the address or that neighbour has no MAC.
\<close>

theorem router_route_next_hop:
  assumes "\<forall>r \<in> set (rt_routes rt). route_wf r" "router_route rt (V4 a) = res"
  shows "\<exists>answer. res = Some answer \<and>
    (answer = Inl (NoRouteFound (V4 a)) \<longleftrightarrow> (\<forall>r \<in> set (rt_routes rt). \<not> covers (V4 a) r)) \<and>
    (\<forall>hop. answer = Inr hop \<longrightarrow> (\<exists>r. first_longest (V4 a) (rt_routes rt) r \<and>
       re_out_if_index r = Some (nh_if_index hop) \<and>
       nh_ip_addr hop = (case re_gateway r of None \<Rightarrow> V4 a | Some g \<Rightarrow> g) \<and>
       resolved (at_neighbors (rt_arp_table rt)) (nh_ip_addr hop) (nh_mac_addr hop)))"
proof -
  obtain b where found: "lookup_loop (V4 a) (filter (\<lambda>r. re_family r = ip_family (V4 a)) (rt_routes rt)) None = Some b"
    "best_of (V4 a) (rt_routes rt) b" using lookup_loop_best [OF assms(1)] by blast
  have covered: "first_longest (V4 a) (rt_routes rt) r \<Longrightarrow> \<exists>r' \<in> set (rt_routes rt). covers (V4 a) r'" for r
    by (auto simp: first_longest_def)
  show ?thesis
  proof (cases b)
    case (Some p)
    then obtain r where "b = Some (r, prefix_of r)" "first_longest (V4 a) (rt_routes rt) r"
      using \<open>best_of (V4 a) (rt_routes rt) b\<close> by (cases p) (auto simp: best_of_def)
    then show ?thesis
      using assms(2) found covered [of r]
      by (cases "re_out_if_index r")
        (auto simp: router_route_def lookup_route_family Let_def arp_lookup_resolved intro!: exI [of _ r])
  qed (use assms(2) found in \<open>simp add: router_route_def lookup_route_family best_of_def\<close>)
qed

definition lan_router :: router where
  "lan_router = \<lparr>rt_arp_table = \<lparr>at_neighbors = [\<lparr>ne_destination = Some (V4 (Ipv4Addr 192 168 1 1)),
     ne_lladdr = Some (MacAddress 2 0 0 0 0 1), ne_ifindex = 2, ne_state = NUD_REACHABLE\<rparr>]\<rparr>,
     rt_routes = [gw_route, lan_route]\<rparr>"

abbreviation one_one :: ipv4_addr where "one_one \<equiv> Ipv4Addr 1 1 1 1"

theorem router_route_next_hop_witness:
  "router_route lan_router (V4 one_one) = Some (Inr \<lparr>nh_mac_addr = Some (MacAddress 2 0 0 0 0 1),
     nh_ip_addr = V4 (Ipv4Addr 192 168 1 1), nh_if_index = 2\<rparr>) \<and>
   (\<exists>answer. router_route lan_router (V4 one_one) = Some answer \<and>
    (answer = Inl (NoRouteFound (V4 one_one)) \<longleftrightarrow> (\<forall>r \<in> set (rt_routes lan_router). \<not> covers (V4 one_one) r)) \<and>
    (\<forall>hop. answer = Inr hop \<longrightarrow> (\<exists>r. first_longest (V4 one_one) (rt_routes lan_router) r \<and>
       re_out_if_index r = Some (nh_if_index hop) \<and>
       nh_ip_addr hop = (case re_gateway r of None \<Rightarrow> V4 one_one | Some g \<Rightarrow> g) \<and>
       resolved (at_neighbors (rt_arp_table lan_router)) (nh_ip_addr hop) (nh_mac_addr hop))))"
proof
  show "router_route lan_router (V4 one_one) = Some (Inr \<lparr>nh_mac_addr = Some (MacAddress 2 0 0 0 0 1),
     nh_ip_addr = V4 (Ipv4Addr 192 168 1 1), nh_if_index = 2\<rparr>)" by code_simp
qed (rule router_route_next_hop, simp_all add: lan_router_def route_wf_def gw_route_def lan_route_def)

end
