(* ===== verification/Slot_Pool.thy ===== *)
theory Slot_Pool
  imports Axdp_Prelude
begin

text \<open>
  The contract of an allocator of fixed slots, as the loops and the packet pool rely on it:
  taking a slot removes it from the free ones, giving it back restores it, and nothing else
  changes. The provider is \<^verbatim>\<open>SliceUmem\<close> (\<^verbatim>\<open>reserve\<close>, \<^verbatim>\<open>release\<close>) or the packet pool
  (\<^verbatim>\<open>acquire\<close>, \<^verbatim>\<open>release\<close>); the client's part, any sequence of calls in which a slot is
  only given back while it is held, is \<open>pool_run\<close>.
\<close>

datatype pool_op = Take | Give nat

fun pool_step ::
  "('s \<Rightarrow> ('i \<times> 's) option) \<Rightarrow> ('i \<Rightarrow> 's \<Rightarrow> 's) \<Rightarrow> 's \<times> 'i list \<Rightarrow> pool_op \<Rightarrow> 's \<times> 'i list"
where
  "pool_step tk gv (s, held) Take =
     (case tk s of None \<Rightarrow> (s, held) | Some (i, s') \<Rightarrow> (s', i # held))"
| "pool_step tk gv (s, held) (Give k) =
     (if k < length held then (gv (held ! k) s, take k held @ drop (Suc k) held) else (s, held))"

definition pool_run ::
  "('s \<Rightarrow> ('i \<times> 's) option) \<Rightarrow> ('i \<Rightarrow> 's \<Rightarrow> 's) \<Rightarrow> 's \<times> 'i list \<Rightarrow> pool_op list \<Rightarrow> 's \<times> 'i list"
where
  "pool_run tk gv = foldl (pool_step tk gv)"

lemma mset_remove_nth:
  "k < length xs \<Longrightarrow> mset xs = add_mset (xs ! k) (mset (take k xs @ drop (Suc k) xs))"
  by (metis id_take_nth_drop mset.simps(2) mset_append union_mset_add_mset_right append_Cons append_Nil)

lemma remove_nth_distinct:
  assumes "k < length xs" and "distinct xs"
  shows "distinct (take k xs @ drop (Suc k) xs)"
    and "set (take k xs @ drop (Suc k) xs) = set xs - {xs ! k}"
proof -
  have eq: "xs = take k xs @ xs ! k # drop (Suc k) xs" by (rule id_take_nth_drop [OF assms(1)])
  have d: "distinct (take k xs @ xs ! k # drop (Suc k) xs)" using assms(2) eq by simp
  then show "distinct (take k xs @ drop (Suc k) xs)" by auto
  have "set xs = set (take k xs @ xs ! k # drop (Suc k) xs)" using eq by simp
  with d show "set (take k xs @ drop (Suc k) xs) = set xs - {xs ! k}" by auto
qed

locale slot_pool =
  fixes inv :: "'s \<Rightarrow> bool"
    and free :: "'s \<Rightarrow> 'i set"
    and slots :: "'s \<Rightarrow> 'i set"
    and tk :: "'s \<Rightarrow> ('i \<times> 's) option"
    and gv :: "'i \<Rightarrow> 's \<Rightarrow> 's"
  assumes free_slots: "inv s \<Longrightarrow> free s \<subseteq> slots s"
    and take_None: "inv s \<Longrightarrow> tk s = None \<longleftrightarrow> free s = {}"
    and take_Some: "inv s \<Longrightarrow> tk s = Some (i, s') \<Longrightarrow>
      inv s' \<and> slots s' = slots s \<and> i \<in> free s \<and> free s' = free s - {i}"
    and give_back: "inv s \<Longrightarrow> i \<in> slots s \<Longrightarrow> i \<notin> free s \<Longrightarrow>
      inv (gv i s) \<and> slots (gv i s) = slots s \<and> free (gv i s) = insert i (free s)"
begin

lemma step_partition:
  assumes "inv s" "distinct held" "set held \<inter> free s = {}" "set held \<union> free s = slots s"
    and "pool_step tk gv (s, held) c = (s', held')"
  shows "inv s' \<and> slots s' = slots s \<and> distinct held' \<and>
         set held' \<inter> free s' = {} \<and> set held' \<union> free s' = slots s"
proof (cases c)
  case Take
  show ?thesis
  proof (cases "tk s")
    case None
    then show ?thesis using assms Take by auto
  next
    case (Some p)
    then obtain i t where p: "tk s = Some (i, t)" by (cases p) auto
    then show ?thesis using assms Take take_Some [OF assms(1) p] by auto
  qed
next
  case (Give k)
  show ?thesis
  proof (cases "k < length held")
    case True
    then have "held ! k \<in> set held" by simp
    then have i: "held ! k \<in> slots s" "held ! k \<notin> free s" using assms(3,4) by blast+
    show ?thesis
      using assms Give True give_back [OF assms(1) i] remove_nth_distinct [OF True assms(2)] i by auto
  next
    case False
    then show ?thesis using assms Give by auto
  qed
qed

lemma run_partition:
  assumes "inv s" "distinct held" "set held \<inter> free s = {}" "set held \<union> free s = slots s"
    and "pool_run tk gv (s, held) cs = (s', held')"
  shows "inv s' \<and> slots s' = slots s \<and> distinct held' \<and>
         set held' \<inter> free s' = {} \<and> set held' \<union> free s' = slots s"
  using assms
proof (induction cs arbitrary: s held)
  case Nil
  then show ?case by (simp add: pool_run_def)
next
  case (Cons c cs)
  obtain t h where st: "pool_step tk gv (s, held) c = (t, h)" by (cases "pool_step tk gv (s, held) c")
  have t: "inv t \<and> slots t = slots s \<and> distinct h \<and> set h \<inter> free t = {} \<and> set h \<union> free t = slots s"
    by (rule step_partition [OF Cons.prems(1-4) st])
  have "pool_run tk gv (t, h) cs = (s', held')" using Cons.prems(5) st by (simp add: pool_run_def)
  then show ?case using Cons.IH [of t h] t by simp
qed

text \<open>A client that keeps within the pool's size is always served.\<close>

lemma take_succeeds:
  assumes "inv s" "set held \<union> free s = slots s" "finite (slots s)" "length held < card (slots s)"
  shows "\<exists>i s'. tk s = Some (i, s')"
proof (rule ccontr)
  assume "\<not> ?thesis"
  then have "tk s = None" by (cases "tk s") auto
  then have "slots s = set held" using assms(1,2) take_None by auto
  then show False using assms(4) card_length [of held] by simp
qed

end

end
