(* ===== verification/Umem.thy ===== *)
theory Umem
  imports Slot_Pool
begin

text \<open>
  \<^verbatim>\<open>src/src/umem.rs\<close>: the frame allocator \<^verbatim>\<open>SliceUmem\<close> over one byte buffer, its frames,
  and the page-aligned memory the buffer comes from. The allocator meets the contract of
  \<^theory_text>\<open>Slot_Pool\<close>; frames handed out lie in the buffer and never overlap.
\<close>

section \<open>Frames and the allocator\<close>

type_synonym frame_offset = usize

record umem_frame =
  fr_offset :: usize
  fr_len :: usize

definition set_len :: "usize \<Rightarrow> umem_frame \<Rightarrow> umem_frame" where
  "set_len n f = f\<lparr>fr_len := n\<rparr>"

definition from_offset :: "frame_offset \<Rightarrow> usize \<Rightarrow> umem_frame" where
  "from_offset off n = \<lparr>fr_offset = off, fr_len = n\<rparr>"

definition frame_is_empty :: "umem_frame \<Rightarrow> bool" where
  "frame_is_empty f \<longleftrightarrow> fr_len f = 0"

record slice_umem =
  buffer :: "u8 list"
  frame_size :: u32
  available_frames :: "u64 list"
  capacity :: usize

definition umem_new :: "bool \<Rightarrow> u8 list \<Rightarrow> u32 \<Rightarrow> slice_umem io_result" where
  "umem_new dbg buf fs =
     (if dbg \<and> \<not> is_power_of_two fs then Inl (Panic ''frame_size.is_power_of_two()'')
      else if fs = 0 then Inl (Panic ''attempt to divide by zero'')
      else let cap = of_nat (length buf) div ucast fs in
        Inr \<lparr>buffer = buf, frame_size = fs,
             available_frames = map of_nat [0..<unat cap], capacity = cap\<rparr>)"

definition umem_available :: "slice_umem \<Rightarrow> nat" where
  "umem_available um = length (available_frames um)"

definition umem_len :: "slice_umem \<Rightarrow> nat" where
  "umem_len um = length (buffer um)"

definition umem_is_empty :: "slice_umem \<Rightarrow> bool" where
  "umem_is_empty um \<longleftrightarrow> umem_len um = 0"

definition umem_frame_size :: "slice_umem \<Rightarrow> usize" where
  "umem_frame_size um = ucast (frame_size um)"

definition reserve :: "slice_umem \<Rightarrow> (umem_frame \<times> slice_umem) option" where
  "reserve um =
     (if available_frames um = [] then None
      else Some (\<lparr>fr_offset = last (available_frames um) * ucast (frame_size um), fr_len = 0\<rparr>,
                 um\<lparr>available_frames := butlast (available_frames um)\<rparr>))"

definition release :: "frame_offset \<Rightarrow> slice_umem \<Rightarrow> slice_umem" where
  "release off um =
     um\<lparr>available_frames := available_frames um @ [off div ucast (frame_size um)]\<rparr>"

text \<open>
  \<^verbatim>\<open>map_frame\<close> builds a slice from raw parts: \<^term>\<open>None\<close> is a slice that leaves the buffer,
  undefined behaviour in the source. \<open>put_frame\<close> stores the bytes a caller has put into the
  slice \<^verbatim>\<open>map_frame_mut\<close> lent it.
\<close>

definition map_frame :: "slice_umem \<Rightarrow> umem_frame \<Rightarrow> u8 list option" where
  "map_frame um f =
     subslice (unat (fr_offset f)) (unat (fr_offset f) + unat (fr_len f)) (buffer um)"

definition put_frame :: "umem_frame \<Rightarrow> u8 list \<Rightarrow> slice_umem \<Rightarrow> slice_umem option" where
  "put_frame f bytes um =
     map_option (\<lambda>b. um\<lparr>buffer := b\<rparr>) (copy_at (unat (fr_offset f)) bytes (buffer um))"

section \<open>Page-aligned memory\<close>

text \<open>
  The kernel's \<^verbatim>\<open>mmap\<close> is a parameter: the size and the huge-page flag to the address of
  the mapping, \<^term>\<open>None\<close> for \<^verbatim>\<open>MAP_FAILED\<close>. \<open>Inl None\<close> of the result is \<^verbatim>\<open>AllocError\<close>,
  \<open>Inl (Some e)\<close> a panic of a debug build.
\<close>

record page_aligned_memory =
  pam_ptr :: u64
  pam_len :: usize

definition alloc_with_page_size ::
  "(usize \<Rightarrow> bool \<Rightarrow> u64 option) \<Rightarrow> bool \<Rightarrow> usize \<Rightarrow> usize \<Rightarrow> usize \<Rightarrow> bool
     \<Rightarrow> failure option + page_aligned_memory"
where
  "alloc_with_page_size mmap dbg fs fc ps huge =
     (if dbg \<and> \<not> is_power_of_two fs then Inl (Some (Panic ''frame_size.is_power_of_two()''))
      else if dbg \<and> \<not> is_power_of_two fc then Inl (Some (Panic ''frame_count.is_power_of_two()''))
      else if dbg \<and> \<not> is_power_of_two ps then Inl (Some (Panic ''page_size.is_power_of_two()''))
      else if dbg \<and> (mul_overflows fc fs \<or> add_overflows (fc * fs) ps)
        then Inl (Some (Panic ''arithmetic overflow''))
      else let memory_size = fc * fs;
               aligned_size = (memory_size + ps - 1) AND NOT (ps - 1)
        in case mmap aligned_size huge of
             None \<Rightarrow> Inl None
           | Some p \<Rightarrow> Inr \<lparr>pam_ptr = p, pam_len = aligned_size\<rparr>)"

definition alloc ::
  "(usize \<Rightarrow> bool \<Rightarrow> u64 option) \<Rightarrow> usize \<Rightarrow> bool \<Rightarrow> usize \<Rightarrow> usize
     \<Rightarrow> failure option + page_aligned_memory"
where
  "alloc mmap sysconf_pagesize dbg fs fc = alloc_with_page_size mmap dbg fs fc sysconf_pagesize False"

definition pam_contents :: "page_aligned_memory \<Rightarrow> u8 list" where
  "pam_contents m = replicate (unat (pam_len m)) 0"

section \<open>The allocator's invariant\<close>

text \<open>
  What \<^verbatim>\<open>SliceUmem::new\<close> establishes: at least one byte per frame, a buffer no longer than
  a Rust slice can be (\<open>isize::MAX\<close> bytes), and free indices that are distinct and below the
  capacity.
\<close>

definition umem_inv :: "slice_umem \<Rightarrow> bool" where
  "umem_inv um \<longleftrightarrow>
     frame_size um \<noteq> 0 \<and> length (buffer um) < 2 ^ 63 \<and>
     unat (capacity um) = length (buffer um) div unat (frame_size um) \<and>
     distinct (available_frames um) \<and> (\<forall>i \<in> set (available_frames um). i < capacity um)"

definition frame_at :: "slice_umem \<Rightarrow> u64 \<Rightarrow> frame_offset" where
  "frame_at um i = i * ucast (frame_size um)"

definition free_offsets :: "slice_umem \<Rightarrow> frame_offset set" where
  "free_offsets um = frame_at um ` set (available_frames um)"

definition all_offsets :: "slice_umem \<Rightarrow> frame_offset set" where
  "all_offsets um = frame_at um ` {i. i < capacity um}"

definition reserve_offset :: "slice_umem \<Rightarrow> (frame_offset \<times> slice_umem) option" where
  "reserve_offset um = map_option (\<lambda>(f, um'). (fr_offset f, um')) (reserve um)"

text \<open>The bytes of the frame at an offset.\<close>

definition frame_range :: "slice_umem \<Rightarrow> frame_offset \<Rightarrow> nat set" where
  "frame_range um off = {unat off..<unat off + unat (frame_size um)}"

lemma frame_fits:
  assumes "umem_inv um" and "i < capacity um"
  shows "Suc (unat i) * unat (frame_size um) \<le> length (buffer um)"
proof -
  have "Suc (unat i) \<le> length (buffer um) div unat (frame_size um)"
    using assms by (simp add: umem_inv_def word_less_nat_alt)
  then have "Suc (unat i) * unat (frame_size um)
      \<le> length (buffer um) div unat (frame_size um) * unat (frame_size um)"
    by (rule mult_le_mono1)
  also have "\<dots> \<le> length (buffer um)" by simp
  finally show ?thesis .
qed

lemma unat_frame_at:
  assumes "umem_inv um" and "i < capacity um"
  shows "unat (frame_at um i) = unat i * unat (frame_size um)"
proof -
  have "unat i * unat (frame_size um) < 2 ^ 64"
    using frame_fits [OF assms] assms(1) by (simp add: umem_inv_def)
  then show ?thesis
    by (simp add: frame_at_def unat_word_ariths unat_ucast_up)
qed

lemma frame_at_index:
  assumes "umem_inv um" and "i < capacity um"
  shows "frame_at um i div ucast (frame_size um) = i"
proof -
  have "0 < unat (frame_size um)" using assms(1) by (simp add: umem_inv_def unat_gt_0)
  then have "unat (frame_at um i div ucast (frame_size um)) = unat i"
    by (simp add: unat_div unat_frame_at [OF assms] unat_ucast_up)
  then show ?thesis by (simp add: word_unat_eq_iff)
qed

lemma frame_at_inj:
  assumes "umem_inv um" "i < capacity um" "j < capacity um" "frame_at um i = frame_at um j"
  shows "i = j"
  using frame_at_index [OF assms(1,2)] frame_at_index [OF assms(1,3)] assms(4) by metis

lemma umem_new_inv:
  assumes "umem_new dbg buf fs = Inr um" and "length buf < 2 ^ 63"
  shows "umem_inv um" and "buffer um = buf" and "frame_size um = fs"
    and "unat (capacity um) = length buf div unat fs"
    and "available_frames um = map of_nat [0..<length buf div unat fs]"
proof -
  have fs: "fs \<noteq> 0"
    and um: "um = \<lparr>buffer = buf, frame_size = fs,
       available_frames = map of_nat [0..<unat (of_nat (length buf) div ucast fs :: usize)],
       capacity = of_nat (length buf) div ucast fs\<rparr>"
    using assms(1) by (auto simp: umem_new_def Let_def split: if_splits)
  have lb: "unat (of_nat (length buf) :: usize) = length buf"
    using assms(2) by (simp add: unat_of_nat)
  have cap: "unat (of_nat (length buf) div ucast fs :: usize) = length buf div unat fs"
    by (simp add: unat_div unat_ucast_up lb)
  have small: "length buf div unat fs < 2 ^ 64"
  proof -
    have "length buf div unat fs < 2 ^ 63"
      using assms(2) by (rule order_le_less_trans [OF div_le_dividend])
    then show ?thesis by simp
  qed
  have "distinct (map of_nat [0..<length buf div unat fs] :: u64 list)"
    using small by (auto simp: distinct_map inj_on_def unat_of_nat word_unat_eq_iff)
  moreover have "\<forall>i \<in> set (map of_nat [0..<length buf div unat fs]). i < capacity um"
    using small cap um by (auto simp: word_less_nat_alt unat_of_nat)
  ultimately show "umem_inv um" and "buffer um = buf" and "frame_size um = fs"
    and "unat (capacity um) = length buf div unat fs"
    and "available_frames um = map of_nat [0..<length buf div unat fs]"
    using fs um cap assms(2) by (simp_all add: umem_inv_def)
qed

lemma reserve_Some:
  assumes "umem_inv um" and "reserve um = Some (f, um')"
  shows "umem_inv um'" "fr_offset f \<in> free_offsets um" "fr_len f = 0"
    "free_offsets um' = free_offsets um - {fr_offset f}" "all_offsets um' = all_offsets um"
    "frame_size um' = frame_size um" "buffer um' = buffer um" "capacity um' = capacity um"
proof -
  have ne: "available_frames um \<noteq> []"
    and f: "f = \<lparr>fr_offset = frame_at um (last (available_frames um)), fr_len = 0\<rparr>"
    and um': "um' = um\<lparr>available_frames := butlast (available_frames um)\<rparr>"
    using assms(2) by (auto simp: reserve_def frame_at_def split: if_splits)
  let ?xs = "available_frames um"
  have split: "?xs = butlast ?xs @ [last ?xs]" using ne by simp
  have d: "distinct (butlast ?xs @ [last ?xs])" using assms(1) ne by (simp add: umem_inv_def)
  have lt: "\<And>i. i \<in> set ?xs \<Longrightarrow> i < capacity um" using assms(1) by (simp add: umem_inv_def)
  have sub: "\<And>i. i \<in> set (butlast ?xs) \<Longrightarrow> i \<in> set ?xs" by (rule in_set_butlastD)
  show "umem_inv um'" using assms(1) um' d sub by (auto simp: umem_inv_def)
  show "fr_offset f \<in> free_offsets um" "fr_len f = 0" using f ne by (simp_all add: free_offsets_def)
  have "frame_at um' = frame_at um" by (simp add: um' frame_at_def fun_eq_iff)
  moreover have "frame_at um ` set (butlast ?xs)
      = frame_at um ` set ?xs - {frame_at um (last ?xs)}"
  proof -
    have "set ?xs = insert (last ?xs) (set (butlast ?xs))"
      using arg_cong [OF split, of set] by simp
    moreover have "frame_at um (last ?xs) \<notin> frame_at um ` set (butlast ?xs)"
    proof
      assume "frame_at um (last ?xs) \<in> frame_at um ` set (butlast ?xs)"
      then obtain j where j: "j \<in> set (butlast ?xs)" "frame_at um (last ?xs) = frame_at um j" by auto
      have "last ?xs = j"
        by (rule frame_at_inj [OF assms(1) lt [OF last_in_set [OF ne]] lt [OF sub [OF j(1)]] j(2)])
      then show False using j(1) d by simp
    qed
    ultimately show ?thesis by simp
  qed
  ultimately show "free_offsets um' = free_offsets um - {fr_offset f}"
    and "all_offsets um' = all_offsets um"
    by (simp_all add: free_offsets_def all_offsets_def um' f)
  show "frame_size um' = frame_size um" "buffer um' = buffer um" "capacity um' = capacity um"
    by (simp_all add: um')
qed

lemma release_spec:
  assumes "umem_inv um" "off \<in> all_offsets um" "off \<notin> free_offsets um"
  shows "umem_inv (release off um)" "free_offsets (release off um) = insert off (free_offsets um)"
    "all_offsets (release off um) = all_offsets um"
proof -
  obtain i where i: "i < capacity um" "off = frame_at um i" using assms(2) by (auto simp: all_offsets_def)
  have r: "release off um = um\<lparr>available_frames := available_frames um @ [i]\<rparr>"
    by (simp add: release_def i(2) frame_at_index [OF assms(1) i(1)])
  have "i \<notin> set (available_frames um)" using assms(3) i(2) by (auto simp: free_offsets_def)
  then show "umem_inv (release off um)" using assms(1) i(1) by (auto simp: r umem_inv_def)
  show "free_offsets (release off um) = insert off (free_offsets um)"
    "all_offsets (release off um) = all_offsets um"
    unfolding r by (auto simp: i(2) free_offsets_def all_offsets_def frame_at_def)
qed

interpretation up: slot_pool umem_inv free_offsets all_offsets reserve_offset release
proof
  fix um show "umem_inv um \<Longrightarrow> free_offsets um \<subseteq> all_offsets um"
    by (auto simp: umem_inv_def free_offsets_def all_offsets_def)
next
  fix um show "umem_inv um \<Longrightarrow> (reserve_offset um = None) = (free_offsets um = {})"
    by (simp add: reserve_offset_def reserve_def free_offsets_def)
next
  fix um off um'
  assume "umem_inv um" and "reserve_offset um = Some (off, um')"
  then show "umem_inv um' \<and> all_offsets um' = all_offsets um \<and>
      off \<in> free_offsets um \<and> free_offsets um' = free_offsets um - {off}"
    by (auto simp: reserve_offset_def dest: reserve_Some)
next
  fix um off
  assume "umem_inv um" "off \<in> all_offsets um" "off \<notin> free_offsets um"
  then show "umem_inv (release off um) \<and> all_offsets (release off um) = all_offsets um \<and>
      free_offsets (release off um) = insert off (free_offsets um)"
    by (simp add: release_spec)
qed

section \<open>Properties\<close>

lemma frame_range_disjoint:
  assumes "umem_inv um" "a \<in> all_offsets um" "b \<in> all_offsets um" "a \<noteq> b"
  shows "frame_range um a \<inter> frame_range um b = {}"
proof -
  obtain i j where i: "i < capacity um" "a = frame_at um i" and j: "j < capacity um" "b = frame_at um j"
    using assms(2,3) by (auto simp: all_offsets_def)
  let ?n = "unat (frame_size um)"
  have "unat i \<noteq> unat j" using assms(4) i(2) j(2) by (metis word_unat_eq_iff)
  then have "Suc (unat i) * ?n \<le> unat j * ?n \<or> Suc (unat j) * ?n \<le> unat i * ?n"
    by (metis Suc_leI linorder_neqE_nat mult_le_mono1)
  then show ?thesis
    using unat_frame_at [OF assms(1) i(1)] unat_frame_at [OF assms(1) j(1)]
    by (auto simp: frame_range_def i(2) j(2))
qed

lemma frame_range_in_buffer:
  assumes "umem_inv um" "a \<in> all_offsets um"
  shows "frame_range um a \<subseteq> {..<length (buffer um)}"
proof -
  obtain i where i: "i < capacity um" "a = frame_at um i" using assms(2) by (auto simp: all_offsets_def)
  then show ?thesis
    using frame_fits [OF assms(1) i(1)] by (auto simp: frame_range_def unat_frame_at [OF assms(1) i(1)])
qed

lemma card_all_offsets:
  assumes "umem_inv um" shows "finite (all_offsets um)" "card (all_offsets um) = unat (capacity um)"
proof -
  have "inj_on (frame_at um) {i. i < capacity um}"
    using frame_at_inj [OF assms] by (auto simp: inj_on_def)
  moreover have "card {i. i < capacity um} = unat (capacity um)" by (rule card_words_below)
  ultimately show "finite (all_offsets um)" "card (all_offsets um) = unat (capacity um)"
    by (simp_all add: all_offsets_def card_image)
qed

lemma card_free_offsets:
  assumes "umem_inv um" shows "card (free_offsets um) = umem_available um"
proof -
  have "inj_on (frame_at um) (set (available_frames um))"
    using frame_at_inj [OF assms] assms by (auto simp: inj_on_def umem_inv_def)
  then show ?thesis
    using assms by (simp add: free_offsets_def card_image umem_available_def umem_inv_def distinct_card)
qed

lemma pool_run_frame_size:
  "pool_run reserve_offset release (um, held) cs = (um', held') \<Longrightarrow>
     frame_size um' = frame_size um \<and> buffer um' = buffer um \<and> capacity um' = capacity um"
proof (induction cs arbitrary: um held)
  case Nil
  then show ?case by (simp add: pool_run_def)
next
  case (Cons c cs)
  obtain t h where st: "pool_step reserve_offset release (um, held) c = (t, h)"
    by (cases "pool_step reserve_offset release (um, held) c")
  then have "frame_size t = frame_size um \<and> buffer t = buffer um \<and> capacity t = capacity um"
    by (cases c) (auto simp: reserve_offset_def reserve_def release_def split: if_splits)
  moreover have "pool_run reserve_offset release (t, h) cs = (um', held')"
    using Cons.prems st by (simp add: pool_run_def)
  ultimately show ?case using Cons.IH by metis
qed

text \<open>
  C1. Start from a fresh \<^verbatim>\<open>SliceUmem\<close> and make any sequence of \<^verbatim>\<open>reserve\<close> and \<^verbatim>\<open>release\<close>
  calls in which a client releases only frames it holds. Then no frame is handed out twice, no
  frame is lost (held and available frames add up to the number that fit in the buffer), every
  held frame lies inside the buffer, and no two held frames share a byte.
\<close>

theorem umem_frames_disjoint:
  assumes "umem_new dbg buf fs = Inr um" and "length buf < 2 ^ 63"
    and "pool_run reserve_offset release (um, []) cs = (um', held)"
  shows "distinct held \<and> length held + umem_available um' = length buf div unat fs \<and>
    (\<forall>a \<in> set held. frame_range um' a \<subseteq> {..<length buf}) \<and>
    (\<forall>a \<in> set held. \<forall>b \<in> set held. a \<noteq> b \<longrightarrow> frame_range um' a \<inter> frame_range um' b = {})"
proof -
  note new = umem_new_inv [OF assms(1,2)]
  have free: "free_offsets um = all_offsets um"
  proof -
    have "set (available_frames um) = {i. i < capacity um}"
      by (simp add: words_below new(4,5) lessThan_atLeast0)
    then show ?thesis by (simp add: free_offsets_def all_offsets_def)
  qed
  have part: "umem_inv um' \<and> all_offsets um' = all_offsets um \<and> distinct held \<and>
      set held \<inter> free_offsets um' = {} \<and> set held \<union> free_offsets um' = all_offsets um"
    by (rule up.run_partition [OF new(1) _ _ _ assms(3)]) (simp_all add: free)
  then have fin: "finite (free_offsets um')"
    using card_all_offsets(1) [OF new(1)] by (metis finite_Un)
  have "card (set held) + card (free_offsets um') = unat (capacity um)"
    using part fin card_all_offsets(2) [OF new(1)] by (metis List.finite_set card_Un_disjoint)
  then have "length held + umem_available um' = length buf div unat fs"
    using part card_free_offsets new(4) by (simp add: distinct_card)
  moreover have "set held \<subseteq> all_offsets um'" using part by auto
  moreover have "buffer um' = buf" using pool_run_frame_size [OF assms(3)] new(2) by simp
  ultimately show ?thesis
    using part frame_range_in_buffer frame_range_disjoint by blast
qed

definition small_umem :: "u64 list \<Rightarrow> slice_umem" where
  "small_umem av = \<lparr>buffer = replicate 8 0, frame_size = 4, available_frames = av, capacity = 2\<rparr>"

lemma small_umem_new: "umem_new True (replicate 8 0) 4 = Inr (small_umem [0, 1])"
  by code_simp

lemma small_umem_run:
  "pool_run reserve_offset release (small_umem [0, 1], []) [Take, Take, Give 1, Take]
     = (small_umem [], [4, 0])"
  by (simp add: small_umem_def pool_run_def reserve_offset_def reserve_def release_def)

theorem umem_frames_disjoint_witness:
  "umem_new True (replicate 8 0) 4 = Inr (small_umem [0, 1]) \<and>
   pool_run reserve_offset release (small_umem [0, 1], []) [Take, Take, Give 1, Take]
     = (small_umem [], [4, 0]) \<and>
   frame_range (small_umem []) 4 \<inter> frame_range (small_umem []) 0 = {}"
proof -
  have "length (replicate 8 (0::u8)) < 2 ^ 63" by simp
  from umem_frames_disjoint [OF small_umem_new this small_umem_run] small_umem_new small_umem_run
  show ?thesis by simp
qed

text \<open>
  C2. An address anywhere inside a frame (the kernel may report one with headroom) releases
  that frame, and the next \<^verbatim>\<open>reserve\<close> hands out exactly that frame again, with the allocator
  back in the state before the release.
\<close>

theorem release_reserve_roundtrip:
  assumes "umem_inv um" "off \<in> all_offsets um" "off \<notin> free_offsets um"
    and "unat d < unat (frame_size um)"
  shows "reserve (release (off + d) um) = Some (\<lparr>fr_offset = off, fr_len = 0\<rparr>, um)"
proof -
  obtain i where i: "i < capacity um" "off = frame_at um i" using assms(2) by (auto simp: all_offsets_def)
  let ?n = "unat (frame_size um)"
  have "unat i * ?n + unat d < 2 ^ 64"
    using frame_fits [OF assms(1) i(1)] assms(1,4) by (simp add: umem_inv_def)
  then have "unat (off + d) = unat i * ?n + unat d"
    by (simp add: i(2) unat_word_ariths unat_frame_at [OF assms(1) i(1)])
  then have "unat ((off + d) div ucast (frame_size um)) = unat i"
    using assms(4) by (simp add: unat_div unat_ucast_up)
  then have "(off + d) div ucast (frame_size um) = i" by (simp add: word_unat_eq_iff)
  then show ?thesis by (simp add: release_def reserve_def i(2) frame_at_def)
qed

theorem release_reserve_roundtrip_witness:
  "reserve (release (4 + 3) (small_umem [0])) = Some (\<lparr>fr_offset = 4, fr_len = 0\<rparr>, small_umem [0])"
proof (rule release_reserve_roundtrip)
  show "umem_inv (small_umem [0])" by (simp add: umem_inv_def small_umem_def)
  show "4 \<in> all_offsets (small_umem [0])"
    unfolding all_offsets_def
    by (rule image_eqI [of _ _ 1]) (simp_all add: small_umem_def frame_at_def)
  show "4 \<notin> free_offsets (small_umem [0])" by (simp add: free_offsets_def small_umem_def frame_at_def)
  show "unat (3 :: usize) < unat (frame_size (small_umem [0]))" by (simp add: small_umem_def)
qed

text \<open>
  C3. A successful \<^verbatim>\<open>alloc_with_page_size\<close> of \<open>fc\<close> frames of \<open>fs\<close> bytes (sizes that do
  not overflow \<^verbatim>\<open>usize\<close>, a page size that is a power of two) maps the smallest multiple of the
  page size that holds them, and a \<^verbatim>\<open>SliceUmem\<close> over that memory has room for every frame.
\<close>

theorem alloc_holds_all_frames:
  assumes "alloc_with_page_size mmap dbg fs fc ps huge = Inr m"
    and "is_power_of_two ps" and "unat fc * unat fs + unat ps < 2 ^ 63" and "0 < unat fs"
    and "unat fs < 2 ^ 32"
    and "umem_new False (pam_contents m) (ucast fs) = Inr um"
  shows "unat ps dvd unat (pam_len m) \<and> unat fc * unat fs \<le> unat (pam_len m) \<and>
         unat (pam_len m) < unat fc * unat fs + unat ps \<and> unat fc \<le> umem_available um"
proof -
  have nov: "unat (fc * fs) = unat fc * unat fs" using assms(3) by (simp add: unat_word_ariths)
  have len: "pam_len m = align_up (fc * fs) ps"
    using assms(1) by (auto simp: alloc_with_page_size_def align_up_def Let_def diff_add_eq
        add_diff_eq split: if_splits option.splits)
  have b: "unat ps dvd unat (pam_len m)" "unat fc * unat fs \<le> unat (pam_len m)"
    "unat (pam_len m) < unat fc * unat fs + unat ps"
    using align_up_bounds [OF assms(2), of "fc * fs"] assms(3) by (simp_all add: len nov)
  have fs: "unat (ucast fs :: u32) = unat fs" using assms(5) by (simp add: unat_ucast_mod)
  have "length (pam_contents m) < 2 ^ 63" using b(3) assms(3) by (simp add: pam_contents_def)
  from umem_new_inv(5) [OF assms(6) this]
  have "umem_available um = unat (pam_len m) div unat fs"
    by (simp add: umem_available_def pam_contents_def fs)
  moreover have "unat fc \<le> unat (pam_len m) div unat fs"
    using b(2) assms(4) by (simp add: less_eq_div_iff_mult_less_eq)
  ultimately show ?thesis using b by simp
qed

theorem alloc_holds_all_frames_witness:
  "\<exists>m um. alloc_with_page_size (\<lambda>n h. Some 4096) True 2 2 16 False = Inr m \<and>
     umem_new False (pam_contents m) (ucast (2 :: usize)) = Inr um \<and> unat (pam_len m) = 16 \<and>
     2 \<le> umem_available um"
proof -
  have p: "is_power_of_two (2 :: usize)" "is_power_of_two (16 :: usize)" by code_simp+
  have m: "alloc_with_page_size (\<lambda>n h. Some 4096) True 2 2 16 False
      = Inr \<lparr>pam_ptr = 4096, pam_len = 16\<rparr>" (is "_ = Inr ?m")
    using p by (simp add: alloc_with_page_size_def mul_overflows_def add_overflows_def)
  have "\<exists>um. umem_new False (pam_contents ?m) (ucast (2 :: usize)) = Inr um"
    by (simp add: umem_new_def Let_def)
  then obtain um where um: "umem_new False (pam_contents ?m) (ucast (2 :: usize)) = Inr um" ..
  from alloc_holds_all_frames [OF m p(2) _ _ _ um] m um show ?thesis by auto
qed

end
