(* ===== verification/Ring.thy ===== *)
theory Ring
  imports Umem
begin

text \<open>
  The rings of \<^verbatim>\<open>src/src/device.rs\<close>: the producer and consumer cursors (\<^verbatim>\<open>RingProducer\<close>,
  \<^verbatim>\<open>RingConsumer\<close>), the fill and completion rings built on them, and the mapping of a ring.

  A ring's memory is shared with the kernel, so it is a value of its own (\<open>ring_mem\<close>) that
  every operation takes and returns; the structs keep the cached counters. The counters are
  32-bit words and wrap. The descriptor array is reached through a raw pointer, so it is a
  function from indices: nothing in the model stops an access at or beyond the ring's size,
  and that none happens is a theorem.
\<close>

section \<open>Shared memory and cursors\<close>

record 'd ring_mem =
  rm_producer :: u32
  rm_consumer :: u32
  rm_desc :: "nat \<Rightarrow> 'd"
  rm_flags :: u32

record ring_consumer =
  rc_cached_producer :: u32
  rc_cached_consumer :: u32

definition consumer_new :: "'d ring_mem \<Rightarrow> ring_consumer" where
  "consumer_new m = \<lparr>rc_cached_producer = rm_producer m, rc_cached_consumer = rm_consumer m\<rparr>"

definition consumer_available :: "ring_consumer \<Rightarrow> u32" where
  "consumer_available c = rc_cached_producer c - rc_cached_consumer c"

definition consume :: "ring_consumer \<Rightarrow> u32 option \<times> ring_consumer" where
  "consume c =
     (if rc_cached_consumer c = rc_cached_producer c then (None, c)
      else (Some (rc_cached_consumer c), c\<lparr>rc_cached_consumer := rc_cached_consumer c + 1\<rparr>))"

definition consumer_commit :: "ring_consumer \<Rightarrow> 'd ring_mem \<Rightarrow> 'd ring_mem" where
  "consumer_commit c m = m\<lparr>rm_consumer := rc_cached_consumer c\<rparr>"

definition consumer_sync ::
  "bool \<Rightarrow> ring_consumer \<Rightarrow> 'd ring_mem \<Rightarrow> ring_consumer \<times> 'd ring_mem" where
  "consumer_sync commit c m =
     (let m = (if commit then consumer_commit c m else m)
      in (c\<lparr>rc_cached_producer := rm_producer m\<rparr>, m))"

record ring_producer =
  rp_cached_producer :: u32
  rp_cached_consumer :: u32
  rp_size :: u32

definition producer_new :: "'d ring_mem \<Rightarrow> u32 \<Rightarrow> ring_producer" where
  "producer_new m sz =
     \<lparr>rp_cached_producer = rm_producer m, rp_cached_consumer = rm_consumer m, rp_size = sz\<rparr>"

definition producer_available :: "ring_producer \<Rightarrow> u32" where
  "producer_available p =
     saturating_sub (rp_size p) (rp_cached_producer p - rp_cached_consumer p)"

definition produce :: "ring_producer \<Rightarrow> u32 option \<times> ring_producer" where
  "produce p =
     (if producer_available p = 0 then (None, p)
      else (Some (rp_cached_producer p), p\<lparr>rp_cached_producer := rp_cached_producer p + 1\<rparr>))"

definition producer_commit :: "ring_producer \<Rightarrow> 'd ring_mem \<Rightarrow> 'd ring_mem" where
  "producer_commit p m = m\<lparr>rm_producer := rp_cached_producer p\<rparr>"

definition producer_sync ::
  "bool \<Rightarrow> ring_producer \<Rightarrow> 'd ring_mem \<Rightarrow> ring_producer \<times> 'd ring_mem" where
  "producer_sync commit p m =
     (let m = (if commit then producer_commit p m else m)
      in (p\<lparr>rp_cached_consumer := rm_consumer m\<rparr>, m))"

text \<open>The array index of a counter value: \<^verbatim>\<open>index & self.size.saturating_sub(1)\<close>.\<close>

definition ring_slot :: "u32 \<Rightarrow> u32 \<Rightarrow> nat" where
  "ring_slot sz index = unat (index AND saturating_sub sz 1)"

section \<open>The completion ring and the fill ring\<close>

record tx_completion_ring =
  tc_consumer :: ring_consumer
  tc_size :: u32

definition completion_new :: "bool \<Rightarrow> 'd ring_mem \<Rightarrow> u32 \<Rightarrow> tx_completion_ring io_result" where
  "completion_new dbg m sz =
     (if dbg \<and> \<not> is_power_of_two sz then Inl (Panic ''size.is_power_of_two()'')
      else Inr \<lparr>tc_consumer = consumer_new m, tc_size = sz\<rparr>)"

definition completion_read ::
  "tx_completion_ring \<Rightarrow> u64 ring_mem \<Rightarrow> frame_offset option \<times> tx_completion_ring" where
  "completion_read r m =
     (case consume (tc_consumer r) of
        (None, c) \<Rightarrow> (None, r\<lparr>tc_consumer := c\<rparr>)
      | (Some index, c) \<Rightarrow>
          (Some (rm_desc m (ring_slot (tc_size r) index)), r\<lparr>tc_consumer := c\<rparr>))"

definition completion_commit :: "tx_completion_ring \<Rightarrow> 'd ring_mem \<Rightarrow> 'd ring_mem" where
  "completion_commit r m = consumer_commit (tc_consumer r) m"

definition completion_sync ::
  "bool \<Rightarrow> tx_completion_ring \<Rightarrow> 'd ring_mem \<Rightarrow> tx_completion_ring \<times> 'd ring_mem" where
  "completion_sync commit r m =
     (case consumer_sync commit (tc_consumer r) m of (c, m) \<Rightarrow> (r\<lparr>tc_consumer := c\<rparr>, m))"

record rx_fill_ring =
  rf_producer :: ring_producer
  rf_size :: u32
  rf_fd :: int

definition fill_new :: "bool \<Rightarrow> 'd ring_mem \<Rightarrow> u32 \<Rightarrow> int \<Rightarrow> rx_fill_ring io_result" where
  "fill_new dbg m sz fd =
     (if dbg \<and> \<not> is_power_of_two sz then Inl (Panic ''size.is_power_of_two()'')
      else Inr \<lparr>rf_producer = producer_new m sz, rf_size = sz, rf_fd = fd\<rparr>)"

definition fill_write ::
  "umem_frame \<Rightarrow> rx_fill_ring \<Rightarrow> u64 ring_mem \<Rightarrow> unit io_result \<times> rx_fill_ring \<times> u64 ring_mem"
where
  "fill_write frame r m =
     (case produce (rf_producer r) of
        (None, p) \<Rightarrow> (Inl (IoErr StorageFull), r\<lparr>rf_producer := p\<rparr>, m)
      | (Some index, p) \<Rightarrow>
          (Inr (), r\<lparr>rf_producer := p\<rparr>,
           m\<lparr>rm_desc := (rm_desc m)(ring_slot (rf_size r) index := fr_offset frame)\<rparr>))"

definition fill_available :: "rx_fill_ring \<Rightarrow> nat" where
  "fill_available r = unat (producer_available (rf_producer r))"

definition fill_commit :: "rx_fill_ring \<Rightarrow> 'd ring_mem \<Rightarrow> 'd ring_mem" where
  "fill_commit r m = producer_commit (rf_producer r) m"

definition fill_sync :: "bool \<Rightarrow> rx_fill_ring \<Rightarrow> 'd ring_mem \<Rightarrow> rx_fill_ring \<times> 'd ring_mem" where
  "fill_sync commit r m =
     (case producer_sync commit (rf_producer r) m of (p, m) \<Rightarrow> (r\<lparr>rf_producer := p\<rparr>, m))"

section \<open>Mapping a ring\<close>

text \<open>
  \<^verbatim>\<open>mmap_ring\<close>: the kernel's \<^verbatim>\<open>mmap\<close> is a parameter (length and page offset of the ring to
  the address, or the error number); the pointers of \<^verbatim>\<open>RingMmap\<close> are addresses.
\<close>

record xdp_ring_offset =
  off_producer :: u64
  off_consumer :: u64
  off_desc :: u64
  off_flags :: u64

record ring_mmap =
  mm_addr :: u64
  mm_len :: usize
  mm_producer :: u64
  mm_consumer :: u64
  mm_desc :: u64
  mm_flags :: u64

definition saturating_add :: "'a::len word \<Rightarrow> 'a word \<Rightarrow> 'a word" where
  "saturating_add a b = (if add_overflows a b then - 1 else a + b)"

definition mmap_ring ::
  "(usize \<Rightarrow> u64 \<Rightarrow> int + u64) \<Rightarrow> usize \<Rightarrow> xdp_ring_offset \<Rightarrow> u64 \<Rightarrow> ring_mmap io_result"
where
  "mmap_ring mmap sz offsets ring_type =
     (let map_size = saturating_add (off_desc offsets) sz in
      case mmap map_size ring_type of
        Inl errno \<Rightarrow> Inl (IoErr (LastOsError errno))
      | Inr map_addr \<Rightarrow>
          Inr \<lparr>mm_addr = map_addr, mm_len = map_size,
               mm_producer = map_addr + off_producer offsets,
               mm_consumer = map_addr + off_consumer offsets,
               mm_desc = map_addr + off_desc offsets,
               mm_flags = map_addr + off_flags offsets\<rparr>)"

end
