(* ===== verification/Device.thy ===== *)
theory Device
  imports Route Ring
begin

text \<open>
  \<^verbatim>\<open>src/src/device.rs\<close>, the part about interfaces: looking an interface up by name, by index
  or through the default route, asking the kernel for its addresses and ring sizes, and the
  handle of one of its queues. The kernel's answers are parameters: the interface table
  (\<^verbatim>\<open>if_nametoindex\<close>, \<^verbatim>\<open>if_indextoname\<close>) and the \<^verbatim>\<open>ioctl\<close> calls, which see the 16 bytes of the
  request's name field. Names are byte lists. The property is which 16 bytes each of the three
  calls hands over.
\<close>

abbreviation IF_NAMESIZE :: nat where "IF_NAMESIZE \<equiv> 16"

section \<open>Interfaces\<close>

record network_device =
  nd_if_index :: u32
  nd_if_name :: "u8 list"

text \<open>\<^verbatim>\<open>CString::new\<close> refuses a name with a NUL byte and appends one otherwise.\<close>

definition c_string :: "u8 list \<Rightarrow> u8 list option" where
  "c_string name = (if 0 \<in> set name then None else Some (name @ [0]))"

text \<open>\<open>if_nametoindex\<close>: the C string to the index, or the error number.\<close>

definition device_new :: "(u8 list \<Rightarrow> int + u32) \<Rightarrow> u8 list \<Rightarrow> network_device io_result" where
  "device_new if_nametoindex if_name =
     (case c_string if_name of
        None \<Rightarrow> Inl (IoErr (InvalidInput ''Invalid interface name''))
      | Some if_name_c \<Rightarrow>
          (case if_nametoindex if_name_c of
             Inl errno \<Rightarrow> Inl (IoErr (LastOsError errno))
           | Inr if_index \<Rightarrow> Inr \<lparr>nd_if_index = if_index, nd_if_name = if_name\<rparr>))"

text \<open>
  \<open>if_indextoname\<close>: the index to the name without its NUL, or the error number. The model
  covers names that are valid UTF-8, which \<^verbatim>\<open>from_utf8_lossy\<close> leaves unchanged.
\<close>

definition device_new_from_index ::
  "(u32 \<Rightarrow> int + u8 list) \<Rightarrow> u32 \<Rightarrow> network_device io_result" where
  "device_new_from_index if_indextoname if_index =
     (case if_indextoname if_index of
        Inl errno \<Rightarrow> Inl (IoErr (LastOsError errno))
      | Inr cstr \<Rightarrow> Inr \<lparr>nd_if_index = if_index, nd_if_name = cstr\<rparr>)"

definition device_new_from_default_route ::
  "bool \<Rightarrow> netlink_sys \<Rightarrow> netlink_sys \<Rightarrow> (u32 \<Rightarrow> int + u8 list) \<Rightarrow> network_device io_result option" where
  "device_new_from_default_route dbg neigh_sys route_sys if_indextoname =
     map_option (\<lambda>r. rbind r (\<lambda>router.
         case router_default router of
           Inl _ \<Rightarrow> Inl (Panic ''called Result::unwrap() on an Err value'')
         | Inr default_route \<Rightarrow> device_new_from_index if_indextoname (nh_if_index default_route)))
       (router_new dbg neigh_sys route_sys)"

text \<open>
  \<open>copy_nonoverlapping src dst len\<close> is \<^verbatim>\<open>ptr::copy_nonoverlapping\<close> of \<open>len\<close> bytes from the start of
  one buffer to the start of another, undefined unless both hold that many.
\<close>

definition copy_nonoverlapping :: "u8 list \<Rightarrow> u8 list \<Rightarrow> nat \<Rightarrow> u8 list io_result" where
  "copy_nonoverlapping src dst len =
     (if len \<le> length src \<and> len \<le> length dst then Inr (take len src @ drop len dst)
      else Inl (Undefined ''copy past the end of a buffer''))"

text \<open>
  The system calls: \<^verbatim>\<open>socket\<close> (an error number if it fails), and each \<^verbatim>\<open>ioctl\<close> as a function of
  the name field to an error number or its answer.
\<close>

record device_sys =
  ds_socket :: "int option"
  ds_hwaddr :: "u8 list \<Rightarrow> int + mac_address"
  ds_ifaddr :: "u8 list \<Rightarrow> int + ipv4_addr"
  ds_ringparam :: "u8 list \<Rightarrow> int + (u32 \<times> u32)"

definition device_mac_addr :: "device_sys \<Rightarrow> network_device \<Rightarrow> mac_address io_result" where
  "device_mac_addr sys dev =
     (case ds_socket sys of
        Some errno \<Rightarrow> Inl (IoErr (LastOsError errno))
      | None \<Rightarrow>
          (case c_string (nd_if_name dev) of
             None \<Rightarrow> Inl (Panic ''called Result::unwrap() on an Err value'')
           | Some if_name_bytes \<Rightarrow>
               let len = min (length if_name_bytes) IF_NAMESIZE in
               rbind (copy_nonoverlapping if_name_bytes (replicate IF_NAMESIZE 0) len) (\<lambda>ifr_name.
               case ds_hwaddr sys ifr_name of
                 Inl errno \<Rightarrow> Inl (IoErr (LastOsError errno))
               | Inr mac \<Rightarrow> Inr mac)))"

definition device_ipv4_addr :: "device_sys \<Rightarrow> network_device \<Rightarrow> ipv4_addr io_result" where
  "device_ipv4_addr sys dev =
     (case ds_socket sys of
        Some errno \<Rightarrow> Inl (IoErr (LastOsError errno))
      | None \<Rightarrow>
          (case c_string (nd_if_name dev) of
             None \<Rightarrow> Inl (Panic ''called Result::unwrap() on an Err value'')
           | Some if_name_bytes \<Rightarrow>
               let len = min (length if_name_bytes) IF_NAMESIZE in
               rbind (copy_nonoverlapping if_name_bytes (replicate IF_NAMESIZE 0) len) (\<lambda>ifr_name.
               case ds_ifaddr sys ifr_name of
                 Inl errno \<Rightarrow> Inl (IoErr (LastOsError errno))
               | Inr ip \<Rightarrow> Inr ip)))"

section \<open>Ring sizes and queues\<close>

record ring_sizes =
  rs_rx :: usize
  rs_tx :: usize

definition ring_sizes_default :: ring_sizes where
  "ring_sizes_default = \<lparr>rs_rx = 1024, rs_tx = 1024\<rparr>"

definition device_ring_sizes :: "device_sys \<Rightarrow> u8 list \<Rightarrow> ring_sizes io_result" where
  "device_ring_sizes sys if_name =
     (case ds_socket sys of
        Some errno \<Rightarrow> Inl (IoErr (LastOsError errno))
      | None \<Rightarrow>
          rbind (copy_nonoverlapping if_name (replicate IF_NAMESIZE 0) (min (length if_name) IF_NAMESIZE)) (\<lambda>ifr_name.
          let ifr_name = ifr_name[IF_NAMESIZE - 1 := 0] in
          case ds_ringparam sys ifr_name of
            Inl errno \<Rightarrow> Inl (IoErr (LastOsError errno))
          | Inr (rx_pending, tx_pending) \<Rightarrow>
              Inr \<lparr>rs_rx = ucast rx_pending, rs_tx = ucast tx_pending\<rparr>))"

record device_queue =
  dq_if_index :: u32
  dq_queue_id :: u64
  dq_ring_sizes :: "ring_sizes option"
  dq_completion :: "tx_completion_ring option"

definition device_queue_new :: "u32 \<Rightarrow> u64 \<Rightarrow> ring_sizes option \<Rightarrow> device_queue" where
  "device_queue_new if_index queue_id sizes =
     \<lparr>dq_if_index = if_index, dq_queue_id = queue_id, dq_ring_sizes = sizes, dq_completion = None\<rparr>"

text \<open>\<^verbatim>\<open>.ok()\<close> turns an I/O error of \<^verbatim>\<open>ring_sizes\<close> into \<^verbatim>\<open>None\<close>; the other failures are no \<^verbatim>\<open>Result\<close>.\<close>

definition open_queue :: "device_sys \<Rightarrow> network_device \<Rightarrow> u64 \<Rightarrow> device_queue io_result" where
  "open_queue sys dev queue_id =
     rbind (case device_ring_sizes sys (nd_if_name dev) of
              Inl (IoErr _) \<Rightarrow> Inr None
            | Inl f \<Rightarrow> Inl f
            | Inr s \<Rightarrow> Inr (Some s)) (\<lambda>sizes.
     Inr (device_queue_new (nd_if_index dev) queue_id sizes))"

section \<open>Names reach the kernel\<close>

text \<open>
  The 16 bytes of a request's name field that hold the first \<open>k\<close> bytes of a name (all of them,
  if the name is shorter), every other byte zero.
\<close>

definition name_field :: "nat \<Rightarrow> u8 list \<Rightarrow> u8 list" where
  "name_field k name = map (\<lambda>i. if i < k \<and> i < length name then name ! i else 0) [0..<16]"

lemma name_field_short:
  "length name < 16 \<Longrightarrow> name_field 16 name = name @ replicate (16 - length name) 0"
  "length name < 16 \<Longrightarrow> name_field 15 name = name_field 16 name"
  by (auto simp: name_field_def nth_append intro!: nth_equalityI)

lemma copy_c_string:
  "copy_nonoverlapping (name @ [0]) (replicate 16 0) (min (length (name @ [0])) 16) = Inr (name_field 16 name)"
proof -
  have "take (min (Suc (length name)) 16) (name @ [0]) @ drop (min (Suc (length name)) 16) (replicate 16 0)
      = name_field 16 name"
    by (rule nth_equalityI) (auto simp: name_field_def nth_append min_def)
  then show ?thesis by (simp add: copy_nonoverlapping_def)
qed

lemma copy_name:
  "\<exists>n. copy_nonoverlapping name (replicate 16 0) (min (length name) 16) = Inr n \<and> n[15 := 0] = name_field 15 name"
proof -
  have "(take (min (length name) 16) name @ drop (min (length name) 16) (replicate 16 0))[15 := 0] = name_field 15 name"
    by (rule nth_equalityI) (auto simp: name_field_def nth_append min_def nth_list_update)
  then show ?thesis by (simp add: copy_nonoverlapping_def)
qed

text \<open>
  C15. The name of a device that \<^verbatim>\<open>NetworkDevice::new\<close> returned, of any length, reaches the
  kernel without a panic and without a copy past the name field: \<^verbatim>\<open>mac_addr\<close> and \<^verbatim>\<open>ipv4_addr\<close>
  answer with what the kernel says about the first 16 bytes of the name, \<^verbatim>\<open>ring_sizes\<close> and
  \<^verbatim>\<open>open_queue\<close> about the first 15 and a NUL, the rest of the field zero. For the names Linux
  allows (at most 15 bytes) both are the whole name, padded with NULs.
\<close>

theorem device_name_reaches_kernel:
  assumes "device_new if_nametoindex name = Inr dev" "ds_socket sys = None"
  shows "device_mac_addr sys dev = (case ds_hwaddr sys (name_field 16 name) of
        Inl errno \<Rightarrow> Inl (IoErr (LastOsError errno)) | Inr mac \<Rightarrow> Inr mac) \<and>
    device_ipv4_addr sys dev = (case ds_ifaddr sys (name_field 16 name) of
        Inl errno \<Rightarrow> Inl (IoErr (LastOsError errno)) | Inr ip \<Rightarrow> Inr ip) \<and>
    device_ring_sizes sys (nd_if_name dev) = (case ds_ringparam sys (name_field 15 name) of
        Inl errno \<Rightarrow> Inl (IoErr (LastOsError errno))
      | Inr (rx, tx) \<Rightarrow> Inr \<lparr>rs_rx = ucast rx, rs_tx = ucast tx\<rparr>) \<and>
    (\<exists>queue. open_queue sys dev queue_id = Inr queue \<and> if_nametoindex (name @ [0]) = Inr (dq_if_index queue) \<and>
      dq_queue_id queue = queue_id \<and>
      dq_ring_sizes queue = (case ds_ringparam sys (name_field 15 name) of
        Inl errno \<Rightarrow> None | Inr (rx, tx) \<Rightarrow> Some \<lparr>rs_rx = ucast rx, rs_tx = ucast tx\<rparr>)) \<and>
    (length name < 16 \<longrightarrow> name_field 16 name = name @ replicate (16 - length name) 0 \<and>
      name_field 15 name = name_field 16 name)"
proof -
  have dev: "nd_if_name dev = name" "0 \<notin> set name" "if_nametoindex (name @ [0]) = Inr (nd_if_index dev)"
    using assms(1) by (auto simp: device_new_def c_string_def split: if_splits sum.splits)
  obtain n where n: "copy_nonoverlapping name (replicate 16 0) (min (length name) 16) = Inr n"
    "n[15 := 0] = name_field 15 name" using copy_name by blast
  then have "device_ring_sizes sys name = (case ds_ringparam sys (name_field 15 name) of
        Inl errno \<Rightarrow> Inl (IoErr (LastOsError errno))
      | Inr (rx, tx) \<Rightarrow> Inr \<lparr>rs_rx = ucast rx, rs_tx = ucast tx\<rparr>)"
    using assms(2) by (simp add: device_ring_sizes_def)
  then show ?thesis
    using dev assms(2) copy_c_string [of name] name_field_short [of name]
    by (simp add: device_mac_addr_def device_ipv4_addr_def open_queue_def device_queue_new_def c_string_def Let_def
        split: sum.split)
qed

definition eth_sys :: device_sys where
  "eth_sys = \<lparr>ds_socket = None,
     ds_hwaddr = (\<lambda>n. if n = [101, 116, 104, 48] @ replicate 12 0 then Inr (MacAddress 2 0 0 0 0 1) else Inl 19),
     ds_ifaddr = (\<lambda>n. if n = [101, 116, 104, 48] @ replicate 12 0 then Inr (Ipv4Addr 10 0 0 1) else Inl 19),
     ds_ringparam = (\<lambda>n. if n = [101, 116, 104, 48] @ replicate 12 0 then Inr (512, 256) else Inl 19)\<rparr>"

theorem device_name_reaches_kernel_witness:
  "device_mac_addr eth_sys \<lparr>nd_if_index = 2, nd_if_name = [101, 116, 104, 48]\<rparr> = Inr (MacAddress 2 0 0 0 0 1) \<and>
   device_ipv4_addr eth_sys \<lparr>nd_if_index = 2, nd_if_name = [101, 116, 104, 48]\<rparr> = Inr (Ipv4Addr 10 0 0 1) \<and>
   (\<exists>queue. open_queue eth_sys \<lparr>nd_if_index = 2, nd_if_name = [101, 116, 104, 48]\<rparr> 0 = Inr queue \<and>
      dq_if_index queue = 2 \<and> dq_ring_sizes queue = Some \<lparr>rs_rx = 512, rs_tx = 256\<rparr>)"
  using device_name_reaches_kernel [where if_nametoindex = "\<lambda>_. Inr 2" and name = "[101, 116, 104, 48]"
      and dev = "\<lparr>nd_if_index = 2, nd_if_name = [101, 116, 104, 48]\<rparr>" and sys = eth_sys and queue_id = 0]
  by (auto simp: device_new_def c_string_def eth_sys_def)

end
