(* ===== verification/Spsc.thy ===== *)
theory Spsc
  imports Ring
begin

text \<open>
  The protocol between the two ends of a ring. One end writes, commits and syncs, the other
  reads, commits and syncs, in any interleaving; the memory they share is all that connects
  them. The interfaces of the two ends are the locales \<open>ring_sender\<close> and \<open>ring_receiver\<close>, and
  every ring type of the source interprets one of them. In the program one end of each ring is
  the kernel's; it follows the same protocol, which is what the ring types of the source
  implement on their side.
\<close>

section \<open>Interleavings of the two ends\<close>

datatype ('f, 'e) ring_event = Wrote 'f | Got 'e | Silent

inductive spsc_step ::
  "('f \<Rightarrow> 'w \<Rightarrow> 'd ring_mem \<Rightarrow> bool \<times> 'w \<times> 'd ring_mem)
   \<Rightarrow> ('w \<Rightarrow> 'd ring_mem \<Rightarrow> 'd ring_mem)
   \<Rightarrow> (bool \<Rightarrow> 'w \<Rightarrow> 'd ring_mem \<Rightarrow> 'w \<times> 'd ring_mem)
   \<Rightarrow> ('r \<Rightarrow> 'd ring_mem \<Rightarrow> 'e option \<times> 'r)
   \<Rightarrow> ('r \<Rightarrow> 'd ring_mem \<Rightarrow> 'd ring_mem)
   \<Rightarrow> (bool \<Rightarrow> 'r \<Rightarrow> 'd ring_mem \<Rightarrow> 'r \<times> 'd ring_mem)
   \<Rightarrow> 'w \<times> 'r \<times> 'd ring_mem \<Rightarrow> ('f, 'e) ring_event \<Rightarrow> 'w \<times> 'r \<times> 'd ring_mem \<Rightarrow> bool"
  for put wcommit wsync get rcommit rsync
where
  write_ok: "put f w m = (True, w', m') \<Longrightarrow>
    spsc_step put wcommit wsync get rcommit rsync (w, r, m) (Wrote f) (w', r, m')"
| write_full: "put f w m = (False, w', m') \<Longrightarrow>
    spsc_step put wcommit wsync get rcommit rsync (w, r, m) Silent (w', r, m')"
| sender_commit:
    "spsc_step put wcommit wsync get rcommit rsync (w, r, m) Silent (w, r, wcommit w m)"
| sender_sync: "wsync c w m = (w', m') \<Longrightarrow>
    spsc_step put wcommit wsync get rcommit rsync (w, r, m) Silent (w', r, m')"
| read_ok: "get r m = (Some e, r') \<Longrightarrow>
    spsc_step put wcommit wsync get rcommit rsync (w, r, m) (Got e) (w, r', m)"
| read_empty: "get r m = (None, r') \<Longrightarrow>
    spsc_step put wcommit wsync get rcommit rsync (w, r, m) Silent (w, r', m)"
| receiver_commit:
    "spsc_step put wcommit wsync get rcommit rsync (w, r, m) Silent (w, r, rcommit r m)"
| receiver_sync: "rsync c r m = (r', m') \<Longrightarrow>
    spsc_step put wcommit wsync get rcommit rsync (w, r, m) Silent (w, r', m')"

inductive spsc_run ::
  "('s \<Rightarrow> ('f, 'e) ring_event \<Rightarrow> 's \<Rightarrow> bool) \<Rightarrow> 's \<Rightarrow> ('f, 'e) ring_event list \<Rightarrow> 's \<Rightarrow> bool"
  for step
where
  run_nil: "spsc_run step s [] s"
| run_snoc: "spsc_run step s tr t \<Longrightarrow> step t e u \<Longrightarrow> spsc_run step s (tr @ [e]) u"

fun event_write :: "('f, 'e) ring_event \<Rightarrow> 'f list" where
  "event_write (Wrote f) = [f]"
| "event_write _ = []"

fun event_read :: "('f, 'e) ring_event \<Rightarrow> 'e list" where
  "event_read (Got e) = [e]"
| "event_read _ = []"

definition written :: "('f, 'e) ring_event list \<Rightarrow> 'f list" where
  "written tr = concat (map event_write tr)"

definition received :: "('f, 'e) ring_event list \<Rightarrow> 'e list" where
  "received tr = concat (map event_read tr)"

lemma written_snoc [simp]: "written (tr @ [e]) = written tr @ event_write e"
  by (simp add: written_def)

lemma received_snoc [simp]: "received (tr @ [e]) = received tr @ event_read e"
  by (simp add: received_def)

lemma written_received_Nil [simp]: "written [] = []" "received [] = []"
  by (simp_all add: written_def received_def)

text \<open>The same interleavings as programs that can be run.\<close>

datatype 'f ring_cmd = Put 'f | SCommit | SSync bool | Get | RCommit | RSync bool

fun ring_do ::
  "('f \<Rightarrow> 'w \<Rightarrow> 'd ring_mem \<Rightarrow> bool \<times> 'w \<times> 'd ring_mem)
   \<Rightarrow> ('w \<Rightarrow> 'd ring_mem \<Rightarrow> 'd ring_mem)
   \<Rightarrow> (bool \<Rightarrow> 'w \<Rightarrow> 'd ring_mem \<Rightarrow> 'w \<times> 'd ring_mem)
   \<Rightarrow> ('r \<Rightarrow> 'd ring_mem \<Rightarrow> 'e option \<times> 'r)
   \<Rightarrow> ('r \<Rightarrow> 'd ring_mem \<Rightarrow> 'd ring_mem)
   \<Rightarrow> (bool \<Rightarrow> 'r \<Rightarrow> 'd ring_mem \<Rightarrow> 'r \<times> 'd ring_mem)
   \<Rightarrow> 'f ring_cmd \<Rightarrow> 'w \<times> 'r \<times> 'd ring_mem \<Rightarrow> ('f, 'e) ring_event \<times> 'w \<times> 'r \<times> 'd ring_mem"
where
  "ring_do put wc ws gt rc rs (Put f) (w, r, m) =
     (case put f w m of (ok, w, m) \<Rightarrow> (if ok then Wrote f else Silent, w, r, m))"
| "ring_do put wc ws gt rc rs SCommit (w, r, m) = (Silent, w, r, wc w m)"
| "ring_do put wc ws gt rc rs (SSync c) (w, r, m) = (case ws c w m of (w, m) \<Rightarrow> (Silent, w, r, m))"
| "ring_do put wc ws gt rc rs Get (w, r, m) =
     (case gt r m of (None, r) \<Rightarrow> (Silent, w, r, m) | (Some e, r) \<Rightarrow> (Got e, w, r, m))"
| "ring_do put wc ws gt rc rs RCommit (w, r, m) = (Silent, w, r, rc r m)"
| "ring_do put wc ws gt rc rs (RSync c) (w, r, m) = (case rs c r m of (r, m) \<Rightarrow> (Silent, w, r, m))"

lemma receiver_sync_pair: "spsc_step put wc ws gt rc rs (w, r, m) Silent (w, rs c r m)"
  by (cases "rs c r m") (auto intro: receiver_sync)

lemma ring_do_step:
  "ring_do put wc ws gt rc rs c s = (e, t) \<Longrightarrow> spsc_step put wc ws gt rc rs s e t"
  by (cases "(put, wc, ws, gt, rc, rs, c, s)" rule: ring_do.cases)
    (auto split: prod.splits option.splits if_splits intro: spsc_step.intros receiver_sync_pair)

fun ring_exec where
  "ring_exec put wc ws gt rc rs [] tr s = (tr, s)"
| "ring_exec put wc ws gt rc rs (c # cs) tr s =
     (case ring_do put wc ws gt rc rs c s of (e, t) \<Rightarrow> ring_exec put wc ws gt rc rs cs (tr @ [e]) t)"

lemma ring_exec_run:
  assumes "spsc_run (spsc_step put wc ws gt rc rs) s0 tr s"
    "ring_exec put wc ws gt rc rs cs tr s = (tr', s')"
  shows "spsc_run (spsc_step put wc ws gt rc rs) s0 tr' s'"
  using assms
proof (induction cs arbitrary: tr s)
  case (Cons c cs)
  obtain e t where d: "ring_do put wc ws gt rc rs c s = (e, t)" by (metis surj_pair)
  show ?case
    by (rule Cons.IH [OF run_snoc [OF Cons.prems(1) ring_do_step [OF d]]]) (use Cons.prems d in simp)
qed simp

lemma ring_exec_fst:
  assumes "tr = fst (ring_exec put wc ws gt rc rs cs [] s)"
    and "\<And>w r m. spsc_run (spsc_step put wc ws gt rc rs) s tr (w, r, m) \<Longrightarrow> Q"
  shows Q
proof (cases "ring_exec put wc ws gt rc rs cs [] s")
  case (fields tr' w r m)
  then show ?thesis using ring_exec_run [OF run_nil fields] assms by auto
qed

section \<open>Counters and slots\<close>

lemma power_of_two_u32_le:
  assumes "is_power_of_two (sz :: u32)" shows "0 < unat sz" and "unat sz \<le> 2 ^ 31"
proof -
  obtain k where k: "k < 32" "unat sz = 2 ^ k" using pow2_nat [OF assms] by auto
  have "(2::nat) ^ k \<le> 2 ^ 31" using k(1) by (intro power_increasing) auto
  then show "0 < unat sz" "unat sz \<le> 2 ^ 31" by (simp_all add: k(2))
qed

lemma counter_diff: "j \<le> i \<Longrightarrow> (b + of_nat i) - (b + of_nat j) = (of_nat (i - j) :: u32)"
  by simp

lemma counter_inj:
  assumes "(b :: u32) + of_nat i = b + of_nat j" "i \<le> j" "j - i < 2 ^ 32"
  shows "i = j"
proof -
  have "of_nat (j - i) = (0 :: u32)" using assms(1) counter_diff [OF assms(2), of b] by simp
  then have "unat (of_nat (j - i) :: u32) = 0" by simp
  then have "j - i = 0" using assms(3) by (simp add: unat_of_nat_small)
  then show ?thesis using assms(2) by simp
qed

lemma ring_slot_nat:
  assumes "is_power_of_two sz"
  shows "ring_slot sz (b + of_nat i) = (unat b + i) mod unat sz"
proof -
  obtain k where k: "k < 32" "unat sz = 2 ^ k" using pow2_nat [OF assms] by auto
  have "saturating_sub sz 1 = sz - 1"
    using is_power_of_two_pos [OF assms] by (simp add: saturating_sub_def word_less_nat_alt)
  then have "ring_slot sz (b + of_nat i) = unat (b + of_nat i) mod unat sz"
    by (simp add: ring_slot_def unat_and_pow2_minus_1 [OF assms])
  moreover have "unat (b + of_nat i) = (unat b + i) mod 2 ^ 32"
    by (simp add: unat_word_ariths unat_of_nat mod_add_right_eq)
  moreover have "(2::nat) ^ k dvd 2 ^ 32" using k(1) by (intro le_imp_power_dvd) simp
  ultimately show ?thesis by (simp add: k(2) mod_mod_cancel)
qed

lemma ring_slot_less: "is_power_of_two sz \<Longrightarrow> ring_slot sz i < unat sz"
  using ring_slot_nat [of sz i 0] is_power_of_two_pos [of sz] by simp

lemma ring_slot_distinct:
  assumes "is_power_of_two sz" "i < j" "j < i + unat sz"
  shows "ring_slot sz (b + of_nat i) \<noteq> ring_slot sz (b + of_nat j)"
proof
  assume "ring_slot sz (b + of_nat i) = ring_slot sz (b + of_nat j)"
  then have "(unat b + i) mod unat sz = (unat b + j) mod unat sz" by (simp only: ring_slot_nat [OF assms(1)])
  then have "unat sz dvd (unat b + j) - (unat b + i)"
    by (metis mod_eq_dvd_iff_nat assms(2) add_le_cancel_left less_imp_le)
  then have "unat sz dvd j - i" by simp
  moreover have "0 < j - i" "j - i < unat sz" using assms(2,3) by auto
  ultimately show False by (auto dest: dvd_imp_le)
qed

section \<open>The invariant of an interleaving\<close>

text \<open>
  \<open>ws\<close> lists everything ever written and \<open>k\<close> counts what was read. Counters are the base
  plus a number of elements; in the order of the protocol: freed as the sender knows it, freed
  in memory, read, published as the receiver knows it, published in memory, written. At most
  \<open>sz\<close> elements are written and not known to be freed, and each of those is in its slot.
\<close>

definition spsc_view ::
  "u32 \<Rightarrow> u32 \<Rightarrow> 'd list \<Rightarrow> nat \<Rightarrow> nat \<Rightarrow> nat \<Rightarrow> nat \<Rightarrow> nat
     \<Rightarrow> ring_producer \<Rightarrow> ring_consumer \<Rightarrow> 'd ring_mem \<Rightarrow> bool"
where
  "spsc_view b sz ws k pc C cp P p c m \<longleftrightarrow>
     pc \<le> C \<and> C \<le> k \<and> k \<le> cp \<and> cp \<le> P \<and> P \<le> length ws \<and> length ws \<le> pc + unat sz \<and>
     rp_size p = sz \<and>
     rp_cached_producer p = b + of_nat (length ws) \<and> rp_cached_consumer p = b + of_nat pc \<and>
     rm_producer m = b + of_nat P \<and> rm_consumer m = b + of_nat C \<and>
     rc_cached_producer c = b + of_nat cp \<and> rc_cached_consumer c = b + of_nat k \<and>
     (\<forall>i. pc \<le> i \<and> i < length ws \<longrightarrow> rm_desc m (ring_slot sz (b + of_nat i)) = ws ! i)"

lemma unat_producer_available:
  assumes "is_power_of_two (rp_size p)" "pc \<le> n" "n \<le> pc + unat (rp_size p)"
    "rp_cached_producer p = b + of_nat n" "rp_cached_consumer p = b + of_nat pc"
  shows "unat (producer_available p) = pc + unat (rp_size p) - n"
proof -
  define e :: u32 where "e = of_nat (n - pc)"
  have d: "rp_cached_producer p - rp_cached_consumer p = e"
    using assms(2,4,5) counter_diff e_def by simp
  have "n - pc < 2 ^ 32" using assms(3) power_of_two_u32_le(2) [OF assms(1)] by simp
  then have u: "unat e = n - pc" by (simp add: e_def unat_of_nat_small del: of_nat_diff)
  then have "e \<le> rp_size p" using assms(3) by (simp add: word_le_nat_alt)
  then show ?thesis
    using u assms(2,3) by (simp add: producer_available_def d saturating_sub_def unat_sub linorder_not_less)
qed

lemma unat_consumer_available:
  assumes "k \<le> cp" "cp - k < 2 ^ 32"
    "rc_cached_producer c = b + of_nat cp" "rc_cached_consumer c = b + of_nat k"
  shows "unat (consumer_available c) = cp - k"
  using assms counter_diff [OF assms(1), of b]
  by (simp add: consumer_available_def unat_of_nat_small del: of_nat_diff)

lemma view_write:
  assumes "spsc_view b sz ws k pc C cp P p c m" "is_power_of_two sz" "producer_available p \<noteq> 0"
  shows "spsc_view b sz (ws @ [d]) k pc C cp P (p\<lparr>rp_cached_producer := rp_cached_producer p + 1\<rparr>) c
     (m\<lparr>rm_desc := (rm_desc m)(ring_slot sz (rp_cached_producer p) := d)\<rparr>)"
proof -
  have "0 < unat (producer_available p)" using assms(3) by (simp add: unat_gt_0)
  then have room: "length ws < pc + unat sz"
    using unat_producer_available [of p pc "length ws" b] assms(1,2) by (simp add: spsc_view_def)
  have "((rm_desc m)(ring_slot sz (b + of_nat (length ws)) := d)) (ring_slot sz (b + of_nat i))
      = (ws @ [d]) ! i" if "pc \<le> i" "i < length (ws @ [d])" for i
  proof (cases "i = length ws")
    case False
    then have i: "i < length ws" using that by simp
    then have "ring_slot sz (b + of_nat i) \<noteq> ring_slot sz (b + of_nat (length ws))"
      using ring_slot_distinct [OF assms(2)] room that(1) by simp
    then show ?thesis using assms(1) i that(1) by (simp add: spsc_view_def nth_append)
  qed simp
  then show ?thesis using assms(1) room by (simp add: spsc_view_def)
qed

lemma view_sender:
  assumes "spsc_view b sz ws k pc C cp P p c m"
  shows "spsc_view b sz ws k pc C cp (length ws) p c (m\<lparr>rm_producer := rp_cached_producer p\<rparr>)"
    and "spsc_view b sz ws k C C cp P (p\<lparr>rp_cached_consumer := rm_consumer m\<rparr>) c m"
  using assms by (auto simp: spsc_view_def)

lemma view_receiver:
  assumes "spsc_view b sz ws k pc C cp P p c m"
  shows "spsc_view b sz ws k pc k cp P p c (m\<lparr>rm_consumer := rc_cached_consumer c\<rparr>)"
    and "spsc_view b sz ws k pc C P P p (c\<lparr>rc_cached_producer := rm_producer m\<rparr>) m"
  using assms by (auto simp: spsc_view_def)

lemma view_read:
  assumes "spsc_view b sz ws k pc C cp P p c m" "rc_cached_consumer c \<noteq> rc_cached_producer c"
  shows "k < length ws" and "rm_desc m (ring_slot sz (rc_cached_consumer c)) = ws ! k"
    and "spsc_view b sz ws (Suc k) pc C cp P p (c\<lparr>rc_cached_consumer := rc_cached_consumer c + 1\<rparr>) m"
proof -
  have "k \<noteq> cp" using assms by (auto simp: spsc_view_def)
  then have k: "k < cp" using assms(1) by (simp add: spsc_view_def)
  then show "k < length ws" "rm_desc m (ring_slot sz (rc_cached_consumer c)) = ws ! k"
    "spsc_view b sz ws (Suc k) pc C cp P p (c\<lparr>rc_cached_consumer := rc_cached_consumer c + 1\<rparr>) m"
    using assms(1) by (auto simp: spsc_view_def)
qed

section \<open>The two interfaces and the channel they form\<close>

locale ring_sender =
  fixes prod :: "'w \<Rightarrow> ring_producer"
    and wsize :: "'w \<Rightarrow> u32"
    and enc :: "'f \<Rightarrow> 'd"
    and put :: "'f \<Rightarrow> 'w \<Rightarrow> 'd ring_mem \<Rightarrow> bool \<times> 'w \<times> 'd ring_mem"
    and wcommit :: "'w \<Rightarrow> 'd ring_mem \<Rightarrow> 'd ring_mem"
    and wsync :: "bool \<Rightarrow> 'w \<Rightarrow> 'd ring_mem \<Rightarrow> 'w \<times> 'd ring_mem"
  assumes put_full: "producer_available (prod w) = 0 \<Longrightarrow> put f w m = (ok, w', m') \<Longrightarrow>
      \<not> ok \<and> prod w' = prod w \<and> wsize w' = wsize w \<and> m' = m"
    and put_ok: "producer_available (prod w) \<noteq> 0 \<Longrightarrow> put f w m = (ok, w', m') \<Longrightarrow>
      ok \<and> prod w' = (prod w)\<lparr>rp_cached_producer := rp_cached_producer (prod w) + 1\<rparr> \<and>
      wsize w' = wsize w \<and>
      m' = m\<lparr>rm_desc := (rm_desc m)(ring_slot (wsize w) (rp_cached_producer (prod w)) := enc f)\<rparr>"
    and wcommit_eq: "wcommit w m = m\<lparr>rm_producer := rp_cached_producer (prod w)\<rparr>"
    and wsync_eq: "wsync cm w m = (w', m') \<Longrightarrow>
      prod w' = (prod w)\<lparr>rp_cached_consumer := rm_consumer m\<rparr> \<and> wsize w' = wsize w \<and>
      m' = (if cm then wcommit w m else m)"

locale ring_receiver =
  fixes cons :: "'r \<Rightarrow> ring_consumer"
    and rsize :: "'r \<Rightarrow> u32"
    and dec :: "'d \<Rightarrow> 'e"
    and get :: "'r \<Rightarrow> 'd ring_mem \<Rightarrow> 'e option \<times> 'r"
    and rcommit :: "'r \<Rightarrow> 'd ring_mem \<Rightarrow> 'd ring_mem"
    and rsync :: "bool \<Rightarrow> 'r \<Rightarrow> 'd ring_mem \<Rightarrow> 'r \<times> 'd ring_mem"
  assumes get_empty: "rc_cached_consumer (cons r) = rc_cached_producer (cons r) \<Longrightarrow>
      get r m = (x, r') \<Longrightarrow> x = None \<and> cons r' = cons r \<and> rsize r' = rsize r"
    and get_ok: "rc_cached_consumer (cons r) \<noteq> rc_cached_producer (cons r) \<Longrightarrow>
      get r m = (x, r') \<Longrightarrow>
      x = Some (dec (rm_desc m (ring_slot (rsize r) (rc_cached_consumer (cons r))))) \<and>
      cons r' = (cons r)\<lparr>rc_cached_consumer := rc_cached_consumer (cons r) + 1\<rparr> \<and>
      rsize r' = rsize r"
    and rcommit_eq: "rcommit r m = m\<lparr>rm_consumer := rc_cached_consumer (cons r)\<rparr>"
    and rsync_eq: "rsync cm r m = (r', m') \<Longrightarrow>
      cons r' = (cons r)\<lparr>rc_cached_producer := rm_producer m\<rparr> \<and> rsize r' = rsize r \<and>
      m' = (if cm then rcommit r m else m)"

locale spsc_channel =
  ring_sender prod wsize enc put wcommit wsync + ring_receiver cons rsize dec get rcommit rsync
  for prod :: "'w \<Rightarrow> ring_producer" and wsize and enc :: "'f \<Rightarrow> 'd" and put and wcommit and wsync
    and cons :: "'r \<Rightarrow> ring_consumer" and rsize and dec :: "'d \<Rightarrow> 'e" and get and rcommit and rsync
begin

lemma step_view:
  assumes "spsc_step put wcommit wsync get rcommit rsync (w, r, m) ev (w', r', m')"
    and v: "spsc_view b sz ws k pc C cp P (prod w) (cons r) m"
    and sz: "is_power_of_two sz" "wsize w = sz" "rsize r = sz"
  shows "\<exists>k' pc' C' cp' P'. spsc_view b sz (ws @ map enc (event_write ev)) k' pc' C' cp' P' (prod w') (cons r') m'
    \<and> wsize w' = sz \<and> rsize r' = sz \<and> k' = k + length (event_read ev)
    \<and> event_read ev = map dec (take (k' - k) (drop k ws))"
  using assms(1)
proof (cases rule: spsc_step.cases)
  case (write_ok f)
  then have "producer_available (prod w) \<noteq> 0" using put_full [of w f m] by blast
  moreover from this write_ok
  have "prod w' = (prod w)\<lparr>rp_cached_producer := rp_cached_producer (prod w) + 1\<rparr> \<and> wsize w' = wsize w \<and>
      m' = m\<lparr>rm_desc := (rm_desc m)(ring_slot (wsize w) (rp_cached_producer (prod w)) := enc f)\<rparr>"
    using put_ok [of w f m] by blast
  ultimately show ?thesis
    using view_write [OF v sz(1), of "enc f"] sz write_ok by auto
next
  case (write_full f)
  then have "producer_available (prod w) = 0" using put_ok [of w f m] by blast
  with write_full have "prod w' = prod w \<and> wsize w' = wsize w \<and> m' = m"
    using put_full [of w f m] by blast
  then show ?thesis using v sz write_full by auto
next
  case sender_commit
  then show ?thesis using view_sender(1) [OF v] sz by (auto simp: wcommit_eq)
next
  case (sender_sync cm)
  note s = wsync_eq [OF sender_sync(3)]
  show ?thesis
  proof (cases cm)
    case True
    then show ?thesis using view_sender(2) [OF view_sender(1) [OF v]] s sz sender_sync by (auto simp: wcommit_eq)
  next
    case False
    then show ?thesis using view_sender(2) [OF v] s sz sender_sync by auto
  qed
next
  case (read_ok e)
  then have ne: "rc_cached_consumer (cons r) \<noteq> rc_cached_producer (cons r)"
    using get_empty [of r m] by blast
  note g = get_ok [OF ne read_ok(4)] and vr = view_read [OF v ne]
  then have "take 1 (drop k ws) = [ws ! k]" by (simp add: take_Suc_conv_app_nth Cons_nth_drop_Suc [symmetric])
  then show ?thesis using g vr sz read_ok
    by (intro exI [of _ "Suc k"] exI [of _ pc] exI [of _ C] exI [of _ cp] exI [of _ P]) auto
next
  case read_empty
  then have "rc_cached_consumer (cons r) = rc_cached_producer (cons r)" using get_ok [of r m] by blast
  then have "cons r' = cons r \<and> rsize r' = rsize r" using get_empty [of r m] read_empty by blast
  then show ?thesis using v sz read_empty by auto
next
  case receiver_commit
  then show ?thesis using view_receiver(1) [OF v] sz by (auto simp: rcommit_eq)
next
  case (receiver_sync cm)
  note s = rsync_eq [OF receiver_sync(3)]
  show ?thesis
  proof (cases cm)
    case True
    then show ?thesis using view_receiver(2) [OF view_receiver(1) [OF v]] s sz receiver_sync by (auto simp: rcommit_eq)
  next
    case False
    then show ?thesis using view_receiver(2) [OF v] s sz receiver_sync by auto
  qed
qed

lemma run_view:
  assumes "spsc_run (spsc_step put wcommit wsync get rcommit rsync) s tr s'"
    and "s = (w, r, m)" "s' = (w', r', m')"
    and "spsc_view b sz [] 0 0 0 0 0 (prod w) (cons r) m"
    and "is_power_of_two sz" "wsize w = sz" "rsize r = sz"
  shows "\<exists>k pc C cp P. spsc_view b sz (map enc (written tr)) k pc C cp P (prod w') (cons r') m' \<and>
    wsize w' = sz \<and> rsize r' = sz \<and> received tr = map dec (take k (map enc (written tr)))"
  using assms
proof (induction arbitrary: w' r' m' rule: spsc_run.induct)
  case (run_nil s)
  then show ?case
    by (intro exI [of _ "0 :: nat"]) simp
next
  case (run_snoc s tr t ev u)
  obtain w1 r1 m1 where t: "t = (w1, r1, m1)" by (cases t)
  then obtain k pc C cp P where
    v: "spsc_view b sz (map enc (written tr)) k pc C cp P (prod w1) (cons r1) m1"
      "wsize w1 = sz" "rsize r1 = sz" and rec: "received tr = map dec (take k (map enc (written tr)))"
    using run_snoc.IH run_snoc.prems by blast
  let ?ws = "map enc (written tr)"
  have "spsc_step put wcommit wsync get rcommit rsync (w1, r1, m1) ev (w', r', m')"
    using run_snoc.hyps(2) run_snoc.prems(2) t by simp
  from step_view [OF this v(1) run_snoc.prems(4) v(2,3)] obtain k' pc' C' cp' P' where
    v': "spsc_view b sz (?ws @ map enc (event_write ev)) k' pc' C' cp' P' (prod w') (cons r') m'"
      "wsize w' = sz" "rsize r' = sz" and k': "k' = k + length (event_read ev)"
    and rd: "event_read ev = map dec (take (k' - k) (drop k ?ws))" by blast
  have k: "k \<le> length ?ws" using v(1) by (simp add: spsc_view_def)
  have "length (event_read ev) = min (k' - k) (length ?ws - k)" by (simp add: rd)
  then have "k' \<le> length ?ws" using k k' by linarith
  moreover have "take k' ?ws = take k ?ws @ take (k' - k) (drop k ?ws)"
    using take_add [of k "k' - k" ?ws] k' by simp
  then have "received (tr @ [ev]) = map dec (take k' ?ws)" by (simp add: rec rd)
  ultimately have "received (tr @ [ev]) = map dec (take k' (?ws @ map enc (event_write ev)))"
    by simp
  then show ?case using v' by (intro exI [of _ k'] exI [of _ pc'] exI [of _ C'] exI [of _ cp'] exI [of _ P']) simp
qed

text \<open>
  First in, first out, nothing lost, nothing invented: what was received is, in order, the
  beginning of what was written, and what is still in the ring fits its size.
\<close>

lemma fifo:
  assumes "spsc_run (spsc_step put wcommit wsync get rcommit rsync) (w, r, m) tr (w', r', m')"
    and "rm_producer m = b" "rm_consumer m = b"
    and "prod w = producer_new m sz" "cons r = consumer_new m"
    and "is_power_of_two sz" "wsize w = sz" "rsize r = sz"
  shows "\<exists>rest. map (dec \<circ> enc) (written tr) = received tr @ rest \<and> length rest \<le> unat sz"
proof -
  have "spsc_view b sz [] 0 0 0 0 0 (prod w) (cons r) m"
    using assms(2-5) by (simp add: spsc_view_def producer_new_def consumer_new_def)
  from run_view [OF assms(1) refl refl this assms(6-8)] obtain k pc C cp P where
    v: "spsc_view b sz (map enc (written tr)) k pc C cp P (prod w') (cons r') m'"
    and rec: "received tr = map dec (take k (map enc (written tr)))" by blast
  let ?rest = "map dec (drop k (map enc (written tr)))"
  have "map (dec \<circ> enc) (written tr) = received tr @ ?rest"
    by (simp only: rec map_append [symmetric] append_take_drop_id map_map)
  moreover have "length ?rest \<le> unat sz" using v by (auto simp: spsc_view_def)
  ultimately show ?thesis by blast
qed

text \<open>
  The sender never loses room: once the receiver has read and committed everything and the
  sender has synced, the whole ring is available again; and the receiver sees every element
  the sender has committed once it syncs.
\<close>

lemma sync_sees_all:
  assumes "spsc_run (spsc_step put wcommit wsync get rcommit rsync) (w, r, m) tr (w', r', m')"
    and "rm_producer m = b" "rm_consumer m = b"
    and "prod w = producer_new m sz" "cons r = consumer_new m"
    and "is_power_of_two sz" "wsize w = sz" "rsize r = sz"
    and "rsync cm r' (wcommit w' m') = (r'', m'')"
  shows "unat (consumer_available (cons r'')) + length (received tr) = length (written tr)"
proof -
  have "spsc_view b sz [] 0 0 0 0 0 (prod w) (cons r) m"
    using assms(2-5) by (simp add: spsc_view_def producer_new_def consumer_new_def)
  from run_view [OF assms(1) refl refl this assms(6-8)] obtain k pc C cp P where
    v: "spsc_view b sz (map enc (written tr)) k pc C cp P (prod w') (cons r') m'"
    and rec: "received tr = map dec (take k (map enc (written tr)))" by blast
  have "cons r'' = (cons r')\<lparr>rc_cached_producer := rp_cached_producer (prod w')\<rparr>"
    using rsync_eq [OF assms(9)] by (simp add: wcommit_eq)
  then have c: "rc_cached_producer (cons r'') = b + of_nat (length (written tr))"
    "rc_cached_consumer (cons r'') = b + of_nat k" using v by (simp_all add: spsc_view_def)
  have "k \<le> length (written tr)" "length (written tr) - k \<le> unat sz"
    using v by (auto simp: spsc_view_def)
  moreover have "unat sz < 2 ^ 32" using power_of_two_u32_le(2) [OF assms(6)] by simp
  ultimately have "unat (consumer_available (cons r'')) = length (written tr) - k"
    using unat_consumer_available [OF _ _ c] by simp
  then show ?thesis using \<open>k \<le> length (written tr)\<close> by (simp add: rec)
qed

end

section \<open>The fill ring and the completion ring\<close>

definition fill_put ::
  "umem_frame \<Rightarrow> rx_fill_ring \<Rightarrow> u64 ring_mem \<Rightarrow> bool \<times> rx_fill_ring \<times> u64 ring_mem" where
  "fill_put frame r m = (case fill_write frame r m of (res, r, m) \<Rightarrow> (io_ok res, r, m))"

interpretation fill: ring_sender rf_producer rf_size fr_offset fill_put fill_commit fill_sync
  by unfold_locales
    (auto simp: fill_put_def fill_write_def produce_def fill_commit_def producer_commit_def
      fill_sync_def producer_sync_def io_ok_def Let_def split: if_splits)

interpretation compl: ring_receiver tc_consumer tc_size "\<lambda>d. d" completion_read completion_commit
    completion_sync
  by unfold_locales
    (auto simp: completion_read_def consume_def completion_commit_def consumer_commit_def
      completion_sync_def consumer_sync_def Let_def split: if_splits)

interpretation fc: spsc_channel rf_producer rf_size fr_offset fill_put fill_commit fill_sync
    tc_consumer tc_size "\<lambda>d. d" completion_read completion_commit completion_sync
  by unfold_locales

lemma fill_new_Inr:
  "fill_new dbg m sz fd = Inr w \<Longrightarrow> rf_producer w = producer_new m sz \<and> rf_size w = sz"
  by (auto simp: fill_new_def split: if_splits)

lemma completion_new_Inr:
  "completion_new dbg m sz = Inr r \<Longrightarrow> tc_consumer r = consumer_new m \<and> tc_size r = sz"
  by (auto simp: completion_new_def split: if_splits)

text \<open>
  C7. The fill ring, against any reader that follows the ring protocol (\<open>ring_receiver\<close>: it
  takes entries in order up to the producer index it last saw, and publishes how far it got): in
  every interleaving of writes, commits and syncs with the reader's reads, commits and syncs, and
  whatever value the 32-bit counters start from and however often they wrap, the reader gets
  exactly the offsets of the frames written, in the order written, and at most \<^verbatim>\<open>size\<close> frames
  are written and not yet read, so no slot is overwritten before it is read.
\<close>

theorem fill_ring_fifo:
  fixes kconsumer :: "'k \<Rightarrow> ring_consumer"
  assumes "ring_receiver kconsumer ksize (\<lambda>d. d) kread kcommit ksync"
    and "is_power_of_two sz" "rm_producer m = rm_consumer m"
    and "fill_new dbg m sz fd = Inr w" "kconsumer k = consumer_new m" "ksize k = sz"
    and "spsc_run (spsc_step fill_put fill_commit fill_sync kread kcommit ksync)
      (w, k, m) tr (w', k', m')"
  shows "\<exists>unread. map fr_offset (written tr) = received tr @ unread \<and> length unread \<le> unat sz"
proof -
  have "spsc_channel rf_producer rf_size fr_offset fill_put fill_commit fill_sync
      kconsumer ksize (\<lambda>d. d) kread kcommit ksync"
    by (rule spsc_channel.intro [OF fill.ring_sender_axioms assms(1)])
  from spsc_channel.fifo [OF this assms(7) assms(3) refl] show ?thesis
    using fill_new_Inr [OF assms(4)] assms(2,5,6) by (simp add: comp_def)
qed

definition wrapping_ring :: "u64 ring_mem" where
  "wrapping_ring = \<lparr>rm_producer = 0xFFFFFFFF, rm_consumer = 0xFFFFFFFF, rm_desc = \<lambda>_. 0, rm_flags = 0\<rparr>"

abbreviation frame_a :: umem_frame where "frame_a \<equiv> \<lparr>fr_offset = 4096, fr_len = 0\<rparr>"
abbreviation frame_b :: umem_frame where "frame_b \<equiv> \<lparr>fr_offset = 8192, fr_len = 0\<rparr>"

abbreviation fill_side :: "u64 ring_mem \<Rightarrow> rx_fill_ring" where
  "fill_side m \<equiv> \<lparr>rf_producer = producer_new m 2, rf_size = 2, rf_fd = 3\<rparr>"
abbreviation completion_side :: "u64 ring_mem \<Rightarrow> tx_completion_ring" where
  "completion_side m \<equiv> \<lparr>tc_consumer = consumer_new m, tc_size = 2\<rparr>"

definition fill_trace :: "(umem_frame, frame_offset) ring_event list" where
  "fill_trace = fst (ring_exec fill_put fill_commit fill_sync
     completion_read completion_commit completion_sync
     [Put frame_a, Put frame_b, Put frame_a, SSync True, RSync False, Get, RSync True, SSync False,
      Put frame_a, Get]
     [] (fill_side wrapping_ring, completion_side wrapping_ring, wrapping_ring))"

lemma is_power_of_two_2 [simp]: "is_power_of_two (2 :: u32)"
  by code_simp

theorem fill_ring_fifo_witness:
  "written fill_trace = [frame_a, frame_b, frame_a] \<and> received fill_trace = [4096, 8192] \<and>
   (\<exists>unread. map fr_offset (written fill_trace) = received fill_trace @ unread
      \<and> length unread \<le> unat (2 :: u32))"
proof -
  have "\<exists>unread. map fr_offset (written fill_trace) = received fill_trace @ unread
      \<and> length unread \<le> unat (2 :: u32)"
    by (rule ring_exec_fst [OF fill_trace_def],
        rule fill_ring_fifo [OF compl.ring_receiver_axioms, where dbg = True and fd = 3])
      (simp_all add: fill_new_def wrapping_ring_def)
  moreover have "written fill_trace = [frame_a, frame_b, frame_a] \<and> received fill_trace = [4096, 8192]"
    by code_simp
  ultimately show ?thesis by blast
qed

text \<open>
  C8. The completion ring, against any writer that follows the ring protocol (\<open>ring_sender\<close>):
  in every interleaving the frame offsets read are those the writer put, in order; and once the
  writer commits and the ring is synced, what is available to read is exactly what was written
  and not yet read, so no completion is lost and none is reported twice.
\<close>

theorem completion_ring_complete:
  fixes kproducer :: "'k \<Rightarrow> ring_producer" and kenc :: "'f \<Rightarrow> u64"
  assumes "ring_sender kproducer ksize kenc kwrite kcommit ksync"
    and "is_power_of_two sz" "rm_producer m = rm_consumer m"
    and "kproducer k = producer_new m sz" "ksize k = sz" "completion_new dbg m sz = Inr r"
    and "spsc_run (spsc_step kwrite kcommit ksync completion_read completion_commit completion_sync)
      (k, r, m) tr (k', r', m')"
    and "completion_sync c r' (kcommit k' m') = (r'', m'')"
  shows "\<exists>unread. map kenc (written tr) = received tr @ unread \<and>
    unat (consumer_available (tc_consumer r'')) = length unread \<and> length unread \<le> unat sz"
proof -
  have ch: "spsc_channel kproducer ksize kenc kwrite kcommit ksync
      tc_consumer tc_size (\<lambda>d. d) completion_read completion_commit completion_sync"
    by (rule spsc_channel.intro [OF assms(1) compl.ring_receiver_axioms])
  have r: "tc_consumer r = consumer_new m" "tc_size r = sz" using completion_new_Inr [OF assms(6)] by auto
  have p: "rm_producer m = rm_consumer m" "rm_consumer m = rm_consumer m" using assms(3) by auto
  from spsc_channel.fifo [OF ch assms(7) p assms(4) r(1) assms(2,5) r(2)] obtain unread where
    u: "map kenc (written tr) = received tr @ unread" "length unread \<le> unat sz" by (auto simp: comp_def)
  then have "length (written tr) = length (received tr) + length unread"
    by (metis length_append length_map)
  moreover from spsc_channel.sync_sees_all [OF ch assms(7) p assms(4) r(1) assms(2,5) r(2) assms(8)]
  have "unat (consumer_available (tc_consumer r'')) + length (received tr) = length (written tr)" .
  ultimately have "unat (consumer_available (tc_consumer r'')) = length unread" by simp
  then show ?thesis using u by blast
qed

definition completion_exec :: "(umem_frame, frame_offset) ring_event list \<times>
    rx_fill_ring \<times> tx_completion_ring \<times> u64 ring_mem" where
  "completion_exec = ring_exec fill_put fill_commit fill_sync
     completion_read completion_commit completion_sync
     [Put frame_a, SCommit, RSync False, Get, RCommit, SSync False, Put frame_b, Put frame_a]
     [] (fill_side wrapping_ring, completion_side wrapping_ring, wrapping_ring)"

theorem completion_ring_complete_witness:
  "case completion_exec of (tr, k, r, m) \<Rightarrow>
     received tr = [4096] \<and>
     (\<exists>unread. map fr_offset (written tr) = received tr @ unread \<and>
        unat (consumer_available (tc_consumer (fst (completion_sync True r (fill_commit k m)))))
          = length unread \<and> length unread \<le> unat (2 :: u32))"
proof -
  obtain tr k r m where e: "completion_exec = (tr, k, r, m)" by (metis prod_cases4)
  then have run: "spsc_run (spsc_step fill_put fill_commit fill_sync
      completion_read completion_commit completion_sync)
      (fill_side wrapping_ring, completion_side wrapping_ring, wrapping_ring) tr (k, r, m)"
    unfolding completion_exec_def by (rule ring_exec_run [OF run_nil])
  have "\<exists>unread. map fr_offset (written tr) = received tr @ unread \<and>
        unat (consumer_available (tc_consumer (fst (completion_sync True r (fill_commit k m)))))
          = length unread \<and> length unread \<le> unat (2 :: u32)"
    by (rule completion_ring_complete [OF fill.ring_sender_axioms _ _ _ _ _ run surjective_pairing,
          where dbg = True])
      (simp_all add: wrapping_ring_def completion_new_def)
  moreover have "received (fst completion_exec) = [4096]" by code_simp
  ultimately show ?thesis by (simp add: e)
qed

end
