(* ===== verification/Xsk_Socket.thy ===== *)
theory Xsk_Socket
  imports Device Spsc
begin

text \<open>
  \<^verbatim>\<open>src/src/socket.rs\<close>: the transmit and receive rings over \<^verbatim>\<open>XdpDesc\<close>, and the set-up of an
  AF\<^verbatim>\<open>_\<close>XDP socket. The kernel's side of the set-up is the parameter \<open>xsk_sys\<close>: the outcome of each
  system call as an error number or a value, and the contents of the four ring areas as they
  are mapped.
\<close>

section \<open>The transmit and receive rings\<close>

record xdp_desc =
  xd_addr :: u64
  xd_len :: u32
  xd_options :: u32

record tx_ring =
  tr_producer :: ring_producer
  tr_size :: u32
  tr_fd :: int

definition tx_ring_new :: "bool \<Rightarrow> 'd ring_mem \<Rightarrow> u32 \<Rightarrow> int \<Rightarrow> tx_ring io_result" where
  "tx_ring_new dbg m sz fd =
     (if dbg \<and> \<not> is_power_of_two sz then Inl (Panic ''size.is_power_of_two()'')
      else Inr \<lparr>tr_producer = producer_new m sz, tr_size = sz, tr_fd = fd\<rparr>)"

text \<open>The error of \<^verbatim>\<open>TxRing::write\<close> is \<^verbatim>\<open>RingFull(frame)\<close>: it hands the frame back.\<close>

definition tx_write ::
  "umem_frame \<Rightarrow> u32 \<Rightarrow> tx_ring \<Rightarrow> xdp_desc ring_mem
     \<Rightarrow> (umem_frame + unit) \<times> tx_ring \<times> xdp_desc ring_mem" where
  "tx_write frame options r m =
     (case produce (tr_producer r) of
        (None, p) \<Rightarrow> (Inl frame, r\<lparr>tr_producer := p\<rparr>, m)
      | (Some index, p) \<Rightarrow>
          (Inr (), r\<lparr>tr_producer := p\<rparr>,
           m\<lparr>rm_desc := (rm_desc m)(ring_slot (tr_size r) index :=
               \<lparr>xd_addr = fr_offset frame, xd_len = ucast (fr_len frame), xd_options = options\<rparr>)\<rparr>))"

abbreviation XDP_RING_NEED_WAKEUP :: u32 where "XDP_RING_NEED_WAKEUP \<equiv> 1"

definition tx_needs_wakeup :: "'d ring_mem \<Rightarrow> bool" where
  "tx_needs_wakeup m \<longleftrightarrow> rm_flags m AND XDP_RING_NEED_WAKEUP \<noteq> 0"

definition tx_wake :: "(int \<Rightarrow> int + u64) \<Rightarrow> tx_ring \<Rightarrow> u64 io_result" where
  "tx_wake sendto r =
     (case sendto (tr_fd r) of Inl errno \<Rightarrow> Inl (IoErr (LastOsError errno)) | Inr n \<Rightarrow> Inr n)"

definition tx_capacity :: "tx_ring \<Rightarrow> nat" where
  "tx_capacity r = unat (tr_size r)"

definition tx_available :: "tx_ring \<Rightarrow> nat" where
  "tx_available r = unat (producer_available (tr_producer r))"

definition tx_commit :: "tx_ring \<Rightarrow> 'd ring_mem \<Rightarrow> 'd ring_mem" where
  "tx_commit r m = producer_commit (tr_producer r) m"

definition tx_sync :: "bool \<Rightarrow> tx_ring \<Rightarrow> 'd ring_mem \<Rightarrow> tx_ring \<times> 'd ring_mem" where
  "tx_sync commit r m =
     (case producer_sync commit (tr_producer r) m of (p, m) \<Rightarrow> (r\<lparr>tr_producer := p\<rparr>, m))"

record rx_ring =
  rr_consumer :: ring_consumer
  rr_size :: u32
  rr_fd :: int

definition rx_ring_new :: "bool \<Rightarrow> 'd ring_mem \<Rightarrow> u32 \<Rightarrow> int \<Rightarrow> rx_ring io_result" where
  "rx_ring_new dbg m sz fd =
     (if dbg \<and> \<not> is_power_of_two sz then Inl (Panic ''size.is_power_of_two()'')
      else Inr \<lparr>rr_consumer = consumer_new m, rr_size = sz, rr_fd = fd\<rparr>)"

definition rx_capacity :: "rx_ring \<Rightarrow> nat" where
  "rx_capacity r = unat (rr_size r)"

definition rx_available :: "rx_ring \<Rightarrow> nat" where
  "rx_available r = unat (consumer_available (rr_consumer r))"

definition rx_commit :: "rx_ring \<Rightarrow> 'd ring_mem \<Rightarrow> 'd ring_mem" where
  "rx_commit r m = consumer_commit (rr_consumer r) m"

definition rx_sync :: "bool \<Rightarrow> rx_ring \<Rightarrow> 'd ring_mem \<Rightarrow> rx_ring \<times> 'd ring_mem" where
  "rx_sync commit r m =
     (case consumer_sync commit (rr_consumer r) m of (c, m) \<Rightarrow> (r\<lparr>rr_consumer := c\<rparr>, m))"

definition rx_read :: "rx_ring \<Rightarrow> xdp_desc ring_mem \<Rightarrow> xdp_desc option \<times> rx_ring" where
  "rx_read r m =
     (case consume (rr_consumer r) of
        (None, c) \<Rightarrow> (None, r\<lparr>rr_consumer := c\<rparr>)
      | (Some index, c) \<Rightarrow>
          (Some (rm_desc m (ring_slot (rr_size r) index)), r\<lparr>rr_consumer := c\<rparr>))"

section \<open>Setting a socket up\<close>

record xdp_umem_reg =
  reg_addr :: u64
  reg_len :: u64
  reg_chunk_size :: u32

datatype ring_kind = XDP_UMEM_COMPLETION_RING | XDP_UMEM_FILL_RING | XDP_TX_RING | XDP_RX_RING

record xdp_mmap_offsets =
  mo_rx :: xdp_ring_offset
  mo_tx :: xdp_ring_offset
  mo_fr :: xdp_ring_offset
  mo_cr :: xdp_ring_offset

record sockaddr_xdp =
  sxdp_flags :: u16
  sxdp_ifindex :: u32
  sxdp_queue_id :: u32

record xsk_mem =
  xm_completion :: "u64 ring_mem"
  xm_fill :: "u64 ring_mem"
  xm_tx :: "xdp_desc ring_mem"
  xm_rx :: "xdp_desc ring_mem"

record xsk_sys =
  xs_socket :: "int + int"
  xs_umem_reg :: "xdp_umem_reg \<Rightarrow> int option"
  xs_ring_size :: "ring_kind \<Rightarrow> u32 \<Rightarrow> int option"
  xs_busy_poll :: "nat \<Rightarrow> i32 \<Rightarrow> int option"
  xs_mmap_offsets :: "int + xdp_mmap_offsets"
  xs_mmap :: "usize \<Rightarrow> u64 \<Rightarrow> int + u64"
  xs_bind :: "sockaddr_xdp \<Rightarrow> int option"
  xs_mem :: xsk_mem

abbreviation SO_BUSY_POLL :: nat where "SO_BUSY_POLL \<equiv> 46"
abbreviation SO_BUSY_POLL_BUDGET :: nat where "SO_BUSY_POLL_BUDGET \<equiv> 70"
abbreviation SO_PREFER_BUSY_POLL :: nat where "SO_PREFER_BUSY_POLL \<equiv> 69"
abbreviation XDP_PGOFF_RX_RING :: u64 where "XDP_PGOFF_RX_RING \<equiv> 0"
abbreviation XDP_PGOFF_TX_RING :: u64 where "XDP_PGOFF_TX_RING \<equiv> 0x80000000"
abbreviation XDP_UMEM_PGOFF_FILL_RING :: u64 where "XDP_UMEM_PGOFF_FILL_RING \<equiv> 0x100000000"
abbreviation XDP_UMEM_PGOFF_COMPLETION_RING :: u64 where "XDP_UMEM_PGOFF_COMPLETION_RING \<equiv> 0x180000000"
abbreviation XDP_COPY :: u16 where "XDP_COPY \<equiv> 2"
abbreviation XDP_ZEROCOPY :: u16 where "XDP_ZEROCOPY \<equiv> 4"
abbreviation XDP_USE_NEED_WAKEUP :: u16 where "XDP_USE_NEED_WAKEUP \<equiv> 8"

record xsk_socket =
  sk_fd :: int
  sk_dev_queue :: device_queue
  sk_umem :: slice_umem

record xsk_tx =
  tx_completion :: tx_completion_ring
  tx_ring :: "tx_ring option"

record xsk_rx =
  rx_fill :: rx_fill_ring
  rx_ring :: "rx_ring option"

definition saturating_mul :: "'a::len word \<Rightarrow> 'a word \<Rightarrow> 'a word" where
  "saturating_mul a b = (if mul_overflows a b then - 1 else a * b)"

definition sys_ok :: "int option \<Rightarrow> unit io_result" where
  "sys_ok r = (case r of None \<Rightarrow> Inr () | Some errno \<Rightarrow> Inl (IoErr (LastOsError errno)))"

definition sys_val :: "int + 'a \<Rightarrow> 'a io_result" where
  "sys_val r = (case r of Inr a \<Rightarrow> Inr a | Inl errno \<Rightarrow> Inl (IoErr (LastOsError errno)))"

text \<open>
  The loop that sets the ring sizes: \<^verbatim>\<open>size\<close> is a \<^verbatim>\<open>usize\<close> of which the kernel reads the first
  four bytes. The receive ring is skipped when its size is 0.
\<close>

fun set_ring_sizes :: "xsk_sys \<Rightarrow> (ring_kind \<times> usize) list \<Rightarrow> unit io_result" where
  "set_ring_sizes sys [] = Inr ()"
| "set_ring_sizes sys ((ring, sz) # rs) =
     (if ring = XDP_RX_RING \<and> sz = 0 then set_ring_sizes sys rs
      else rbind (sys_ok (xs_ring_size sys ring (ucast sz))) (\<lambda>_. set_ring_sizes sys rs))"

definition busy_poll_setup :: "xsk_sys \<Rightarrow> unit io_result" where
  "busy_poll_setup sys =
     rbind (sys_ok (xs_busy_poll sys SO_BUSY_POLL 200)) (\<lambda>_.
     rbind (sys_ok (xs_busy_poll sys SO_BUSY_POLL_BUDGET 256)) (\<lambda>_.
     sys_ok (xs_busy_poll sys SO_PREFER_BUSY_POLL 1)))"

text \<open>The loop that fills the fill ring before \<^verbatim>\<open>bind\<close> in zero-copy mode.\<close>

fun fill_before_bind ::
  "nat \<Rightarrow> slice_umem \<Rightarrow> rx_fill_ring \<Rightarrow> u64 ring_mem
     \<Rightarrow> (slice_umem \<times> rx_fill_ring \<times> u64 ring_mem) io_result" where
  "fill_before_bind 0 um fill m = Inr (um, fill, m)"
| "fill_before_bind (Suc n) um fill m =
     (case reserve um of
        None \<Rightarrow> Inl (IoErr (OtherError ''Failed to reserve frame for RX fill ring''))
      | Some (frame, um) \<Rightarrow>
          (case fill_write frame fill m of
             (Inl e, _, _) \<Rightarrow> Inl e
           | (Inr _, fill, m) \<Rightarrow> fill_before_bind n um fill m))"

definition open_tx_ring :: "xsk_sys \<Rightarrow> bool \<Rightarrow> xdp_mmap_offsets \<Rightarrow> usize \<Rightarrow> int \<Rightarrow> tx_ring io_result" where
  "open_tx_ring sys dbg offsets tx_ring_size fd =
     rbind (mmap_ring (xs_mmap sys) (saturating_mul tx_ring_size 16) (mo_tx offsets) XDP_PGOFF_TX_RING) (\<lambda>_.
     tx_ring_new dbg (xm_tx (xs_mem sys)) (ucast tx_ring_size) fd)"

definition open_rx_ring :: "xsk_sys \<Rightarrow> bool \<Rightarrow> xdp_mmap_offsets \<Rightarrow> usize \<Rightarrow> int \<Rightarrow> rx_ring option io_result" where
  "open_rx_ring sys dbg offsets rx_ring_size fd =
     (if rx_ring_size > 0
      then rbind (mmap_ring (xs_mmap sys) (saturating_mul rx_ring_size 16) (mo_rx offsets) XDP_PGOFF_RX_RING)
             (\<lambda>_. rbind (rx_ring_new dbg (xm_rx (xs_mem sys)) (ucast rx_ring_size) fd) (\<lambda>r. Inr (Some r)))
      else Inr None)"

definition socket_bind :: "xsk_sys \<Rightarrow> bool \<Rightarrow> device_queue \<Rightarrow> unit io_result" where
  "socket_bind sys zero_copy dev_queue =
     sys_ok (xs_bind sys
       \<lparr>sxdp_flags = XDP_USE_NEED_WAKEUP OR (if zero_copy then XDP_ZEROCOPY else XDP_COPY),
        sxdp_ifindex = dq_if_index dev_queue, sxdp_queue_id = ucast (dq_queue_id dev_queue)\<rparr>)"

definition socket_new ::
  "xsk_sys \<Rightarrow> bool \<Rightarrow> u64 \<Rightarrow> device_queue \<Rightarrow> slice_umem \<Rightarrow> bool \<Rightarrow> usize \<Rightarrow> usize \<Rightarrow> usize \<Rightarrow> usize
     \<Rightarrow> (xsk_socket \<times> xsk_rx \<times> xsk_tx \<times> xsk_mem) io_result" where
  "socket_new sys dbg umem_ptr dev_queue um zero_copy rx_fill_ring_size rx_ring_size
     tx_completion_ring_size tx_ring_size =
     rbind (sys_val (xs_socket sys)) (\<lambda>fd.
     rbind (sys_ok (xs_umem_reg sys \<lparr>reg_addr = umem_ptr, reg_len = of_nat (umem_len um),
                      reg_chunk_size = ucast (umem_frame_size um)\<rparr>)) (\<lambda>_.
     rbind (set_ring_sizes sys
       [(XDP_UMEM_COMPLETION_RING, tx_completion_ring_size), (XDP_UMEM_FILL_RING, rx_fill_ring_size),
        (XDP_TX_RING, tx_ring_size), (XDP_RX_RING, rx_ring_size)]) (\<lambda>_.
     rbind (busy_poll_setup sys) (\<lambda>_.
     rbind (sys_val (xs_mmap_offsets sys)) (\<lambda>offsets.
     rbind (mmap_ring (xs_mmap sys) (saturating_mul tx_completion_ring_size 8) (mo_cr offsets)
              XDP_UMEM_PGOFF_COMPLETION_RING) (\<lambda>_.
     rbind (completion_new dbg (xm_completion (xs_mem sys)) (ucast tx_completion_ring_size)) (\<lambda>completion.
     rbind (mmap_ring (xs_mmap sys) (saturating_mul rx_fill_ring_size 8) (mo_fr offsets)
              XDP_UMEM_PGOFF_FILL_RING) (\<lambda>_.
     rbind (fill_new dbg (xm_fill (xs_mem sys)) (ucast rx_fill_ring_size) fd) (\<lambda>fill.
     rbind (if zero_copy
            then rbind (fill_before_bind (unat rx_fill_ring_size) um fill (xm_fill (xs_mem sys)))
                   (\<lambda>(um, fill, m). Inr (um, fill, fill_commit fill m))
            else Inr (um, fill, xm_fill (xs_mem sys))) (\<lambda>(um, fill, fill_mem).
     rbind (open_tx_ring sys dbg offsets tx_ring_size fd) (\<lambda>txr.
     rbind (open_rx_ring sys dbg offsets rx_ring_size fd) (\<lambda>rxr.
     rbind (socket_bind sys zero_copy dev_queue) (\<lambda>_.
     Inr (\<lparr>sk_fd = fd, sk_dev_queue = dev_queue, sk_umem = um\<rparr>,
          \<lparr>rx_fill = fill, rx_ring = rxr\<rparr>, \<lparr>tx_completion = completion, tx_ring = Some txr\<rparr>,
          (xs_mem sys)\<lparr>xm_fill := fill_mem\<rparr>))))))))))))))"

definition socket_tx ::
  "xsk_sys \<Rightarrow> bool \<Rightarrow> u64 \<Rightarrow> device_queue \<Rightarrow> slice_umem \<Rightarrow> bool \<Rightarrow> usize \<Rightarrow> usize
     \<Rightarrow> (xsk_socket \<times> xsk_tx \<times> xsk_mem) io_result" where
  "socket_tx sys dbg umem_ptr queue um zero_copy completion_size ring_size =
     rbind (if zero_copy
            then (case dq_ring_sizes queue of
                    None \<Rightarrow> Inl (IoErr (OtherError ''zero copy requires a set ring size''))
                  | Some s \<Rightarrow> Inr (rs_rx s, rs_rx s))
            else Inr (1, 0)) (\<lambda>(fill_size, rx_size).
     rbind (socket_new sys dbg umem_ptr queue um zero_copy fill_size rx_size completion_size ring_size)
       (\<lambda>(socket, _, tx, m). Inr (socket, tx, m)))"

definition socket_rx ::
  "xsk_sys \<Rightarrow> bool \<Rightarrow> u64 \<Rightarrow> device_queue \<Rightarrow> slice_umem \<Rightarrow> bool \<Rightarrow> usize \<Rightarrow> usize
     \<Rightarrow> (xsk_socket \<times> xsk_rx \<times> xsk_mem) io_result" where
  "socket_rx sys dbg umem_ptr queue um zero_copy fill_size ring_size =
     rbind (socket_new sys dbg umem_ptr queue um zero_copy fill_size ring_size 0 0)
       (\<lambda>(socket, rx, _, m). Inr (socket, rx, m))"

section \<open>The rings meet the ring protocol\<close>

definition tx_put ::
  "umem_frame \<times> u32 \<Rightarrow> tx_ring \<Rightarrow> xdp_desc ring_mem \<Rightarrow> bool \<times> tx_ring \<times> xdp_desc ring_mem" where
  "tx_put fo r m = (case tx_write (fst fo) (snd fo) r m of (res, r, m) \<Rightarrow> (io_ok res, r, m))"

definition tx_desc :: "umem_frame \<times> u32 \<Rightarrow> xdp_desc" where
  "tx_desc fo = \<lparr>xd_addr = fr_offset (fst fo), xd_len = ucast (fr_len (fst fo)), xd_options = snd fo\<rparr>"

interpretation txs: ring_sender tr_producer tr_size tx_desc tx_put tx_commit tx_sync
  by unfold_locales
    (auto simp: tx_put_def tx_write_def tx_desc_def produce_def tx_commit_def producer_commit_def
      tx_sync_def producer_sync_def io_ok_def Let_def split: if_splits)

interpretation rxr: ring_receiver rr_consumer rr_size "\<lambda>d. d" rx_read rx_commit rx_sync
  by unfold_locales
    (auto simp: rx_read_def consume_def rx_commit_def consumer_commit_def
      rx_sync_def consumer_sync_def Let_def split: if_splits)

interpretation txrx: spsc_channel tr_producer tr_size tx_desc tx_put tx_commit tx_sync
    rr_consumer rr_size "\<lambda>d. d" rx_read rx_commit rx_sync
  by unfold_locales

lemma tx_ring_new_Inr:
  "tx_ring_new dbg m sz fd = Inr w \<Longrightarrow> tr_producer w = producer_new m sz \<and> tr_size w = sz"
  by (auto simp: tx_ring_new_def split: if_splits)

lemma rx_ring_new_Inr:
  "rx_ring_new dbg m sz fd = Inr r \<Longrightarrow> rr_consumer r = consumer_new m \<and> rr_size r = sz"
  by (auto simp: rx_ring_new_def split: if_splits)

section \<open>Frames that move into the fill ring\<close>

text \<open>
  \<open>moved offs s s'\<close>: going from \<open>s\<close> to \<open>s'\<close> (allocator, fill ring, ring memory) took the
  distinct free frames \<open>offs\<close> out of the allocator and appended them, in this order, to what is
  written in the ring; nothing else changed.
\<close>

definition moved ::
  "frame_offset list \<Rightarrow> slice_umem \<times> rx_fill_ring \<times> u64 ring_mem
     \<Rightarrow> slice_umem \<times> rx_fill_ring \<times> u64 ring_mem \<Rightarrow> bool" where
  "moved offs s s' = (case (s, s') of ((um, fill, m), (um', fill', m')) \<Rightarrow>
     umem_inv um' \<and> frame_size um' = frame_size um \<and> buffer um' = buffer um \<and>
     all_offsets um' = all_offsets um \<and> distinct offs \<and> set offs \<subseteq> free_offsets um \<and>
     free_offsets um' = free_offsets um - set offs \<and>
     rf_size fill' = rf_size fill \<and> rp_size (rf_producer fill') = rp_size (rf_producer fill) \<and>
     rp_cached_consumer (rf_producer fill') = rp_cached_consumer (rf_producer fill) \<and>
     rp_cached_producer (rf_producer fill') = rp_cached_producer (rf_producer fill) + of_nat (length offs) \<and>
     (\<forall>b ws k pc C cp P c. spsc_view b (rf_size fill) ws k pc C cp P (rf_producer fill) c m \<longrightarrow>
        spsc_view b (rf_size fill) (ws @ offs) k pc C cp P (rf_producer fill') c m'))"

lemma moved_refl: "umem_inv um \<Longrightarrow> moved [] (um, fill, m) (um, fill, m)"
  by (simp add: moved_def)

lemma moved_trans:
  assumes "moved as s t" "moved bs t u"
  shows "moved (as @ bs) s u"
proof -
  obtain um fill m um1 fill1 m1 um2 fill2 m2 where
    eq: "s = (um, fill, m)" "t = (um1, fill1, m1)" "u = (um2, fill2, m2)" by (metis prod_cases3)
  show ?thesis
    using assms unfolding moved_def eq by (auto simp: add.assoc simp flip: append_assoc)
qed

lemma moved_write:
  assumes "umem_inv um" "is_power_of_two (rf_size fill)" "rp_size (rf_producer fill) = rf_size fill"
    and "reserve um = Some (frame, um')" "fill_write frame fill m = (Inr u, fill', m')"
  shows "moved [fr_offset frame] (um, fill, m) (um', fill', m')"
proof -
  have av: "producer_available (rf_producer fill) \<noteq> 0"
    and w: "rf_producer fill' = (rf_producer fill)\<lparr>rp_cached_producer := rp_cached_producer (rf_producer fill) + 1\<rparr>"
      "rf_size fill' = rf_size fill"
      "m' = m\<lparr>rm_desc := (rm_desc m)(ring_slot (rf_size fill) (rp_cached_producer (rf_producer fill)) := fr_offset frame)\<rparr>"
    using assms(5) by (auto simp: fill_write_def produce_def split: if_splits)
  show ?thesis
    unfolding moved_def using reserve_Some [OF assms(1,4)] w view_write [OF _ assms(2) av] by auto
qed

lemma fill_write_full:
  "fill_write frame fill m = (Inl e, fill', m') \<Longrightarrow>
     producer_available (rf_producer fill) = 0 \<and> fill' = fill \<and> m' = m \<and> e = IoErr StorageFull"
  by (auto simp: fill_write_def produce_def split: if_splits)

lemma fill_before_bind_moved:
  assumes "fill_before_bind n um fill m = Inr (um', fill', m')"
    and "umem_inv um" "is_power_of_two (rf_size fill)" "rp_size (rf_producer fill) = rf_size fill"
  shows "\<exists>offs. length offs = n \<and> moved offs (um, fill, m) (um', fill', m')"
  using assms
proof (induction n arbitrary: um fill m)
  case 0
  then show ?case by (auto intro: moved_refl)
next
  case (Suc n)
  then obtain frame um1 u fill1 m1 where st: "reserve um = Some (frame, um1)"
    "fill_write frame fill m = (Inr u, fill1, m1)" "fill_before_bind n um1 fill1 m1 = Inr (um', fill', m')"
    by (auto split: option.splits prod.splits sum.splits)
  have mv: "moved [fr_offset frame] (um, fill, m) (um1, fill1, m1)"
    by (rule moved_write [OF Suc.prems(2-4) st(1,2)])
  then have "umem_inv um1" "is_power_of_two (rf_size fill1)" "rp_size (rf_producer fill1) = rf_size fill1"
    using Suc.prems(3,4) by (simp_all add: moved_def)
  then obtain offs where "length offs = n" "moved offs (um1, fill1, m1) (um', fill', m')"
    using Suc.IH [OF st(3)] by blast
  then show ?case using moved_trans [OF mv] by (intro exI [of _ "fr_offset frame # offs"]) auto
qed

lemma socket_new_Inr:
  assumes "socket_new sys dbg ptr dq um zc fs rs cs ts = Inr (sk, rx, tx, mem)"
  shows "\<exists>fill. fill_new dbg (xm_fill (xs_mem sys)) (ucast fs) (sk_fd sk) = Inr fill \<and>
     (if zc then \<exists>m. fill_before_bind (unat fs) um fill (xm_fill (xs_mem sys)) = Inr (sk_umem sk, rx_fill rx, m)
          \<and> xm_fill mem = fill_commit (rx_fill rx) m
      else sk_umem sk = um \<and> rx_fill rx = fill \<and> mem = xs_mem sys) \<and>
     completion_new dbg (xm_completion (xs_mem sys)) (ucast cs) = Inr (tx_completion tx) \<and>
     (\<exists>r. tx_ring_new dbg (xm_tx (xs_mem sys)) (ucast ts) (sk_fd sk) = Inr r \<and> tx_ring tx = Some r) \<and>
     (rs > 0 \<longrightarrow> (\<exists>r. rx_ring_new dbg (xm_rx (xs_mem sys)) (ucast rs) (sk_fd sk) = Inr r \<and> rx_ring rx = Some r))"
  using assms unfolding socket_new_def open_tx_ring_def open_rx_ring_def socket_bind_def
  by (auto simp: rbind_eq_Inr_iff split: if_splits)

section \<open>Properties\<close>

text \<open>
  C16. The transmit ring, against any reader that follows the ring protocol: the reader gets,
  in the order of the writes, exactly the descriptors of the frames handed to \<^verbatim>\<open>TxRing::write\<close>
  (offset, length, options), and at most \<^verbatim>\<open>size\<close> descriptors are written and not yet read, in
  every interleaving and across wrap-around of the counters.
\<close>

theorem tx_ring_fifo:
  fixes kconsumer :: "'k \<Rightarrow> ring_consumer"
  assumes "ring_receiver kconsumer ksize (\<lambda>d. d) kread kcommit ksync"
    and "is_power_of_two sz" "rm_producer m = rm_consumer m"
    and "tx_ring_new dbg m sz fd = Inr w" "kconsumer k = consumer_new m" "ksize k = sz"
    and "spsc_run (spsc_step tx_put tx_commit tx_sync kread kcommit ksync) (w, k, m) tr (w', k', m')"
  shows "\<exists>unread. map tx_desc (written tr) = received tr @ unread \<and> length unread \<le> unat sz"
proof -
  have "spsc_channel tr_producer tr_size tx_desc tx_put tx_commit tx_sync
      kconsumer ksize (\<lambda>d. d) kread kcommit ksync"
    by (rule spsc_channel.intro [OF txs.ring_sender_axioms assms(1)])
  from spsc_channel.fifo [OF this assms(7) assms(3) refl] show ?thesis
    using tx_ring_new_Inr [OF assms(4)] assms(2,5,6) by (simp add: comp_def)
qed

definition desc_ring :: "xdp_desc ring_mem" where
  "desc_ring = \<lparr>rm_producer = 0xFFFFFFFE, rm_consumer = 0xFFFFFFFE,
     rm_desc = \<lambda>_. \<lparr>xd_addr = 0, xd_len = 0, xd_options = 0\<rparr>, rm_flags = 0\<rparr>"

abbreviation tx_side :: "xdp_desc ring_mem \<Rightarrow> tx_ring" where
  "tx_side m \<equiv> \<lparr>tr_producer = producer_new m 2, tr_size = 2, tr_fd = 3\<rparr>"
abbreviation rx_side :: "xdp_desc ring_mem \<Rightarrow> rx_ring" where
  "rx_side m \<equiv> \<lparr>rr_consumer = consumer_new m, rr_size = 2, rr_fd = 3\<rparr>"

definition tx_trace :: "(umem_frame \<times> u32, xdp_desc) ring_event list" where
  "tx_trace = fst (ring_exec tx_put tx_commit tx_sync rx_read rx_commit rx_sync
     [Put (frame_a, 0), SSync True, RSync False, Get, Put (frame_b, 1), RCommit, SSync True,
      Put (frame_a, 2), RSync True, Get]
     [] (tx_side desc_ring, rx_side desc_ring, desc_ring))"

theorem tx_ring_fifo_witness:
  "written tx_trace = [(frame_a, 0), (frame_b, 1), (frame_a, 2)] \<and>
   map xd_addr (received tx_trace) = [4096, 8192] \<and>
   (\<exists>unread. map tx_desc (written tx_trace) = received tx_trace @ unread \<and> length unread \<le> unat (2 :: u32))"
proof -
  have "\<exists>unread. map tx_desc (written tx_trace) = received tx_trace @ unread \<and> length unread \<le> unat (2 :: u32)"
    by (rule ring_exec_fst [OF tx_trace_def],
        rule tx_ring_fifo [OF rxr.ring_receiver_axioms, where dbg = True and fd = 3])
      (simp_all add: tx_ring_new_def desc_ring_def)
  moreover have "written tx_trace = [(frame_a, 0), (frame_b, 1), (frame_a, 2)]" by code_simp
  moreover have "map xd_addr (received tx_trace) = [4096, 8192]" by code_simp
  ultimately show ?thesis by blast
qed

text \<open>
  C17. The receive ring, against any writer that follows the ring protocol: the descriptors read
  are those written, in order, each once; and after the writer commits and the ring is synced,
  exactly the written and unread ones are available.
\<close>

theorem rx_ring_complete:
  fixes kproducer :: "'k \<Rightarrow> ring_producer" and kenc :: "'f \<Rightarrow> xdp_desc"
  assumes "ring_sender kproducer ksize kenc kwrite kcommit ksync"
    and "is_power_of_two sz" "rm_producer m = rm_consumer m"
    and "kproducer k = producer_new m sz" "ksize k = sz" "rx_ring_new dbg m sz fd = Inr r"
    and "spsc_run (spsc_step kwrite kcommit ksync rx_read rx_commit rx_sync) (k, r, m) tr (k', r', m')"
    and "rx_sync c r' (kcommit k' m') = (r'', m'')"
  shows "\<exists>unread. map kenc (written tr) = received tr @ unread \<and>
    rx_available r'' = length unread \<and> length unread \<le> unat sz"
proof -
  have ch: "spsc_channel kproducer ksize kenc kwrite kcommit ksync
      rr_consumer rr_size (\<lambda>d. d) rx_read rx_commit rx_sync"
    by (rule spsc_channel.intro [OF assms(1) rxr.ring_receiver_axioms])
  have r: "rr_consumer r = consumer_new m" "rr_size r = sz" using rx_ring_new_Inr [OF assms(6)] by auto
  have p: "rm_producer m = rm_consumer m" "rm_consumer m = rm_consumer m" using assms(3) by auto
  from spsc_channel.fifo [OF ch assms(7) p assms(4) r(1) assms(2,5) r(2)] obtain unread where
    u: "map kenc (written tr) = received tr @ unread" "length unread \<le> unat sz" by (auto simp: comp_def)
  then have "length (written tr) = length (received tr) + length unread"
    by (metis length_append length_map)
  moreover from spsc_channel.sync_sees_all [OF ch assms(7) p assms(4) r(1) assms(2,5) r(2) assms(8)]
  have "unat (consumer_available (rr_consumer r'')) + length (received tr) = length (written tr)" .
  ultimately have "rx_available r'' = length unread" by (simp add: rx_available_def)
  then show ?thesis using u by blast
qed

definition rx_exec :: "(umem_frame \<times> u32, xdp_desc) ring_event list \<times> tx_ring \<times> rx_ring \<times> xdp_desc ring_mem" where
  "rx_exec = ring_exec tx_put tx_commit tx_sync rx_read rx_commit rx_sync
     [Put (frame_a, 0), SCommit, RSync False, Get, RCommit, SSync False, Put (frame_b, 0), Put (frame_a, 0)]
     [] (tx_side desc_ring, rx_side desc_ring, desc_ring)"

theorem rx_ring_complete_witness:
  "case rx_exec of (tr, k, r, m) \<Rightarrow>
     map xd_addr (received tr) = [4096] \<and>
     (\<exists>unread. map tx_desc (written tr) = received tr @ unread \<and>
        rx_available (fst (rx_sync True r (tx_commit k m))) = length unread \<and> length unread \<le> unat (2 :: u32))"
proof -
  obtain tr k r m where e: "rx_exec = (tr, k, r, m)" by (metis prod_cases4)
  then have run: "spsc_run (spsc_step tx_put tx_commit tx_sync rx_read rx_commit rx_sync)
      (tx_side desc_ring, rx_side desc_ring, desc_ring) tr (k, r, m)"
    unfolding rx_exec_def by (rule ring_exec_run [OF run_nil])
  have "\<exists>unread. map tx_desc (written tr) = received tr @ unread \<and>
        rx_available (fst (rx_sync True r (tx_commit k m))) = length unread \<and> length unread \<le> unat (2 :: u32)"
    by (rule rx_ring_complete [OF txs.ring_sender_axioms _ _ _ _ _ run surjective_pairing,
          where dbg = True and fd = 3])
      (simp_all add: desc_ring_def rx_ring_new_def)
  moreover have "map xd_addr (received (fst rx_exec)) = [4096]" by code_simp
  ultimately show ?thesis by (simp add: e)
qed

text \<open>
  C18. Descriptor accesses stay in the mapping: \<^verbatim>\<open>mmap_ring\<close> asks for the ring's descriptor
  offset plus \<^verbatim>\<open>size\<close> entries, and masking a counter, whatever its value, selects an entry that
  ends within the length mapped, as long as that length is not beyond the address space.
\<close>

theorem ring_entries_mapped:
  fixes sz :: u32 and entry :: usize
  assumes "mmap_ring mmap (saturating_mul (ucast sz) entry) offsets ring_type = Inr mm"
    and "is_power_of_two sz" "unat (off_desc offsets) + unat sz * unat entry < 2 ^ 64"
  shows "unat (off_desc offsets) + (ring_slot sz index + 1) * unat entry \<le> unat (mm_len mm)"
proof -
  have u: "unat (ucast sz :: usize) = unat sz" by (simp add: unat_ucast_up)
  have "saturating_mul (ucast sz) entry = ucast sz * entry"
    using assms(3) by (simp add: saturating_mul_def mul_overflows_def u)
  moreover have m: "unat (ucast sz * entry) = unat sz * unat entry"
    using assms(3) by (simp add: unat_word_ariths u)
  moreover have "saturating_add (off_desc offsets) (ucast sz * entry) = off_desc offsets + ucast sz * entry"
    using assms(3) m by (simp add: saturating_add_def add_overflows_def)
  moreover have "mm_len mm = saturating_add (off_desc offsets) (saturating_mul (ucast sz) entry)"
    using assms(1) by (auto simp: mmap_ring_def Let_def split: sum.splits)
  ultimately have "unat (mm_len mm) = unat (off_desc offsets) + unat sz * unat entry"
    using assms(3) by (simp add: unat_word_ariths)
  moreover have "(ring_slot sz index + 1) * unat entry \<le> unat sz * unat entry"
    using ring_slot_less [OF assms(2), of index] by (intro mult_le_mono1) simp
  ultimately show ?thesis by linarith
qed

theorem ring_entries_mapped_witness:
  "unat (off_desc \<lparr>off_producer = 0, off_consumer = 64, off_desc = 192, off_flags = 128\<rparr>) +
     (ring_slot 2 0xFFFFFFFF + 1) * unat (16 :: usize) \<le>
   unat (mm_len \<lparr>mm_addr = 0x10000, mm_len = 224, mm_producer = 0x10000, mm_consumer = 0x10040,
     mm_desc = 0x100C0, mm_flags = 0x10080\<rparr>)"
  by (rule ring_entries_mapped [where mmap = "\<lambda>_ _. Inr 0x10000" and ring_type = 0])
    (simp_all add: mmap_ring_def saturating_mul_def mul_overflows_def saturating_add_def add_overflows_def)

text \<open>
  C19. Zero-copy set-up: when \<^verbatim>\<open>Socket::new\<close> succeeds with \<^verbatim>\<open>zero_copy\<close> on a fresh fill ring, the
  ring is full and published, each of its entries holds the offset of a different frame, and
  those frames are exactly the ones the allocator no longer has: no frame is lost, none is in
  the ring and free at once.
\<close>

theorem socket_new_zero_copy_fill:
  assumes "socket_new sys dbg ptr dq um True fs rs cs ts = Inr (sk, rx, tx, mem)"
    and "umem_inv um" "is_power_of_two (ucast fs :: u32)" "unat fs < 2 ^ 32"
    and "rm_producer (xm_fill (xs_mem sys)) = b" "rm_consumer (xm_fill (xs_mem sys)) = b"
  shows "rm_producer (xm_fill mem) = b + ucast fs \<and> fill_available (rx_fill rx) = 0 \<and>
    (\<exists>offs. length offs = unat fs \<and> distinct offs \<and>
      (\<forall>i < unat fs. rm_desc (xm_fill mem) (ring_slot (ucast fs) (b + of_nat i)) = offs ! i) \<and>
      set offs \<subseteq> free_offsets um \<and> free_offsets (sk_umem sk) = free_offsets um - set offs)"
proof -
  let ?sz = "ucast fs :: u32" and ?m0 = "xm_fill (xs_mem sys)"
  obtain fill m where f: "fill_new dbg ?m0 ?sz (sk_fd sk) = Inr fill"
    "fill_before_bind (unat fs) um fill ?m0 = Inr (sk_umem sk, rx_fill rx, m)"
    "xm_fill mem = fill_commit (rx_fill rx) m"
    using socket_new_Inr [OF assms(1)] by auto
  have n: "rf_producer fill = producer_new ?m0 ?sz" "rf_size fill = ?sz" using fill_new_Inr [OF f(1)] by auto
  then obtain offs where o: "length offs = unat fs" "moved offs (um, fill, ?m0) (sk_umem sk, rx_fill rx, m)"
    using fill_before_bind_moved [OF f(2) assms(2)] assms(3) by (auto simp: producer_new_def)
  have "spsc_view b ?sz [] 0 0 0 0 0 (rf_producer fill) (consumer_new ?m0) ?m0"
    using assms(5,6) n by (simp add: spsc_view_def producer_new_def consumer_new_def)
  then have v: "spsc_view b ?sz offs 0 0 0 0 0 (rf_producer (rx_fill rx)) (consumer_new ?m0) m"
    using o(2) n(2) unfolding moved_def by fastforce
  have u: "unat ?sz = unat fs" using assms(4) by (simp add: unat_ucast_mod)
  have c: "of_nat (unat fs) = ?sz" by (rule word_unat_eq_iff [THEN iffD2]) (simp add: u unat_of_nat assms(4))
  have p: "rp_size (rf_producer (rx_fill rx)) = ?sz"
    "rp_cached_producer (rf_producer (rx_fill rx)) = b + of_nat (unat fs)"
    "rp_cached_consumer (rf_producer (rx_fill rx)) = b + of_nat 0" using v o(1) by (auto simp: spsc_view_def)
  have "fill_available (rx_fill rx) = 0"
    using unat_producer_available [OF _ _ _ p(2,3)] assms(3) u by (simp add: fill_available_def p(1))
  moreover have "rm_producer (xm_fill mem) = b + ?sz"
    by (simp add: f(3) fill_commit_def producer_commit_def p(2) c)
  moreover have "\<forall>i < unat fs. rm_desc (xm_fill mem) (ring_slot ?sz (b + of_nat i)) = offs ! i"
    using v o(1) by (simp add: f(3) fill_commit_def producer_commit_def spsc_view_def)
  ultimately show ?thesis using o by (auto simp: moved_def)
qed

definition ready_sys :: xsk_sys where
  "ready_sys =
     (let off = \<lparr>off_producer = 0, off_consumer = 64, off_desc = 192, off_flags = 128\<rparr>;
          um = \<lparr>rm_producer = 0, rm_consumer = 0, rm_desc = \<lambda>_. 0, rm_flags = 0\<rparr>;
          dm = \<lparr>rm_producer = 0, rm_consumer = 0,
                rm_desc = \<lambda>_. \<lparr>xd_addr = 0, xd_len = 0, xd_options = 0\<rparr>, rm_flags = 0\<rparr> in
      \<lparr>xs_socket = Inr 3, xs_umem_reg = \<lambda>_. None, xs_ring_size = \<lambda>_ n. if n = 0 then Some 22 else None,
       xs_busy_poll = \<lambda>_ _. None, xs_mmap_offsets = Inr \<lparr>mo_rx = off, mo_tx = off, mo_fr = off, mo_cr = off\<rparr>,
       xs_mmap = \<lambda>_ _. Inr 0x10000, xs_bind = \<lambda>_. None,
       xs_mem = \<lparr>xm_completion = um, xm_fill = um, xm_tx = dm, xm_rx = dm\<rparr>\<rparr>)"

abbreviation ready_queue :: device_queue where
  "ready_queue \<equiv> device_queue_new 2 0 None"

definition ready_socket :: "xsk_socket \<times> xsk_rx \<times> xsk_tx \<times> xsk_mem" where
  "ready_socket =
     (case socket_new ready_sys True 0 ready_queue (small_umem [0, 1]) True 2 2 2 2 of Inr r \<Rightarrow> r)"

lemma fill_before_bind_2: "fill_before_bind 2 = fill_before_bind (Suc (Suc 0))"
  by (simp only: numeral_2_eq_2)

lemma ready_socket_ok:
  "socket_new ready_sys True 0 ready_queue (small_umem [0, 1]) True 2 2 2 2 = Inr ready_socket"
proof -
  have "io_ok (socket_new ready_sys True 0 ready_queue (small_umem [0, 1]) True 2 2 2 2)"
    by (simp add: socket_new_def open_tx_ring_def open_rx_ring_def socket_bind_def ready_sys_def sys_val_def sys_ok_def busy_poll_setup_def mmap_ring_def
        completion_new_def fill_new_def tx_ring_new_def rx_ring_new_def fill_before_bind_2 reserve_def small_umem_def
        fill_write_def produce_def producer_available_def saturating_sub_def producer_new_def Let_def)
  then show ?thesis by (auto simp: ready_socket_def io_ok_def split: sum.splits)
qed

theorem socket_new_zero_copy_fill_witness:
  "case ready_socket of (sk, rx, tx, mem) \<Rightarrow>
     rm_producer (xm_fill mem) = 0 + ucast (2 :: usize) \<and> fill_available (rx_fill rx) = 0 \<and>
     (\<exists>offs. length offs = unat (2 :: usize) \<and> distinct offs \<and>
       (\<forall>i < unat (2 :: usize). rm_desc (xm_fill mem) (ring_slot (ucast (2 :: usize)) (0 + of_nat i)) = offs ! i) \<and>
       set offs \<subseteq> free_offsets (small_umem [0, 1]) \<and>
       free_offsets (sk_umem sk) = free_offsets (small_umem [0, 1]) - set offs)"
proof -
  obtain sk rx tx mem where r: "ready_socket = (sk, rx, tx, mem)" by (metis prod_cases4)
  have "umem_inv (small_umem [0, 1])"
    using umem_new_inv(1) [OF small_umem_new] by simp
  then show ?thesis
    unfolding r prod.case
    by (intro socket_new_zero_copy_fill [OF ready_socket_ok [unfolded r]])
      (simp_all add: ready_sys_def Let_def)
qed

text \<open>
  C40. \<^verbatim>\<open>Socket::rx\<close> cannot succeed. It passes 0 for the sizes of the completion and transmit
  rings, which \<^verbatim>\<open>Socket::new\<close> sets unconditionally (only the receive ring is skipped at size 0):
  in a debug build the ring constructor's assertion fails, and in a release build the kernel
  refuses a ring of no entries, which is what \<^verbatim>\<open>XDP_UMEM_COMPLETION_RING\<close> documents (a power of two).
\<close>

theorem socket_rx_never_opens:
  assumes "dbg \<or> (\<forall>kind. xs_ring_size sys kind 0 \<noteq> None)"
  shows "\<not> io_ok (socket_rx sys dbg ptr queue um zero_copy fill_size ring_size)"
proof
  assume "io_ok (socket_rx sys dbg ptr queue um zero_copy fill_size ring_size)"
  then obtain r where "socket_rx sys dbg ptr queue um zero_copy fill_size ring_size = Inr r"
    by (auto simp: io_ok_def split: sum.splits)
  then obtain sk rx tx mem where s: "socket_new sys dbg ptr queue um zero_copy fill_size ring_size 0 0 = Inr (sk, rx, tx, mem)"
    by (auto simp: socket_rx_def rbind_eq_Inr_iff)
  then have "completion_new dbg (xm_completion (xs_mem sys)) (ucast (0 :: usize)) = Inr (tx_completion tx)"
    using socket_new_Inr by blast
  then have "\<not> dbg" using is_power_of_two_pos [of "0 :: u32"] by (auto simp: completion_new_def split: if_splits)
  moreover have "xs_ring_size sys XDP_UMEM_COMPLETION_RING 0 = None"
    using s by (auto simp: socket_new_def rbind_eq_Inr_iff sys_ok_def split: option.splits)
  ultimately show False using assms by blast
qed

theorem socket_rx_never_opens_witness:
  "\<not> io_ok (socket_rx ready_sys True 0 ready_queue (small_umem [0, 1]) False 2 2) \<and>
   \<not> io_ok (socket_rx ready_sys False 0 ready_queue (small_umem [0, 1]) False 2 2)"
  by (intro conjI socket_rx_never_opens) (simp_all add: ready_sys_def Let_def)

end
