(* ===== verification/Loop_Common.thy ===== *)
theory Loop_Common
  imports Xsk_Socket
begin

text \<open>
  What the three loops share: the start-up of a loop thread (\<^verbatim>\<open>set_cpu_affinity\<close> of
  \<^verbatim>\<open>src/src/lib.rs\<close>, the scheduling calls, the allocation of the frame memory), handing
  completed frames back to the allocator, and refilling the fill ring. The lemmas account for
  every frame: as a multiset of frame indices, what the allocator holds changes exactly by what
  is released and what is written to the ring.
\<close>

section \<open>Starting a loop thread\<close>

text \<open>
  The calls are parameters: \<^verbatim>\<open>sched_setaffinity\<close> on the list of CPUs put into the set, the
  scheduling calls of \<^verbatim>\<open>libc\<close>, \<^verbatim>\<open>raise\<close> and \<^verbatim>\<open>drop\<close> of the \<^verbatim>\<open>caps\<close> library (true if they
  succeed), the page size and \<^verbatim>\<open>mmap\<close>.
\<close>

datatype capability = CAP_NET_ADMIN | CAP_NET_RAW | CAP_SYS_NICE

record loop_sys =
  ls_setaffinity :: "usize list \<Rightarrow> int option"
  ls_priority_min :: int
  ls_priority_max :: int
  ls_errno :: int
  ls_setscheduler :: "int \<Rightarrow> int option"
  ls_caps_raise :: "capability \<Rightarrow> bool"
  ls_caps_drop :: "capability \<Rightarrow> bool"
  ls_pagesize :: usize
  ls_mmap :: "usize \<Rightarrow> bool \<Rightarrow> u64 option"

definition set_cpu_affinity :: "loop_sys \<Rightarrow> usize list \<Rightarrow> unit io_result" where
  "set_cpu_affinity sys cpus = sys_ok (ls_setaffinity sys cpus)"

definition fifo_priority_bounds :: "loop_sys \<Rightarrow> (int \<times> int) io_result" where
  "fifo_priority_bounds sys =
     (if ls_priority_min sys = -1 \<or> ls_priority_max sys = -1
      then Inl (IoErr (LastOsError (ls_errno sys)))
      else Inr (ls_priority_min sys, ls_priority_max sys))"

definition set_current_thread_sched_fifo :: "loop_sys \<Rightarrow> int \<Rightarrow> unit io_result" where
  "set_current_thread_sched_fifo sys priority = sys_ok (ls_setscheduler sys priority)"

definition unwrap :: "'a io_result \<Rightarrow> 'a io_result" where
  "unwrap r = (case r of Inr a \<Rightarrow> Inr a | Inl (IoErr e) \<Rightarrow> Inl (Panic ''called Result::unwrap() on an Err value'')
     | Inl f \<Rightarrow> Inl f)"

fun raise_caps :: "(capability \<Rightarrow> bool) \<Rightarrow> capability list \<Rightarrow> unit io_result" where
  "raise_caps op [] = Inr ()"
| "raise_caps op (c # cs) =
     (if op c then raise_caps op cs else Inl (Panic ''called Result::unwrap() on an Err value''))"

abbreviation HUGE_2MB :: usize where "HUGE_2MB \<equiv> 2 * 1024 * 1024"

text \<open>Huge pages first, then regular pages; \<^verbatim>\<open>unwrap\<close> when both fail.\<close>

definition alloc_frames :: "loop_sys \<Rightarrow> bool \<Rightarrow> usize \<Rightarrow> usize \<Rightarrow> page_aligned_memory io_result" where
  "alloc_frames sys dbg fs fc =
     (case alloc_with_page_size (ls_mmap sys) dbg fs fc HUGE_2MB True of
        Inr mem \<Rightarrow> Inr mem
      | Inl (Some f) \<Rightarrow> Inl f
      | Inl None \<Rightarrow>
          (case alloc (ls_mmap sys) (ls_pagesize sys) dbg fs fc of
             Inr mem \<Rightarrow> Inr mem
           | Inl (Some f) \<Rightarrow> Inl f
           | Inl None \<Rightarrow> Inl (Panic ''called Result::unwrap() on an Err value'')))"

definition frames_umem :: "loop_sys \<Rightarrow> bool \<Rightarrow> usize \<Rightarrow> (u64 \<times> slice_umem) io_result" where
  "frames_umem sys dbg fc =
     (let fs = ls_pagesize sys in
      rbind (alloc_frames sys dbg fs fc) (\<lambda>mem.
      rbind (unwrap (umem_new dbg (pam_contents mem) (ucast fs))) (\<lambda>um. Inr (pam_ptr mem, um))))"

definition raise_privileges :: "loop_sys \<Rightarrow> unit io_result" where
  "raise_privileges sys =
     rbind (raise_caps (ls_caps_raise sys) [CAP_NET_ADMIN, CAP_NET_RAW, CAP_SYS_NICE]) (\<lambda>_.
     rbind (unwrap (fifo_priority_bounds sys)) (\<lambda>(_, mx).
     unwrap (set_current_thread_sched_fifo sys mx)))"

section \<open>Reading a ring until it is empty\<close>

definition ring_pending :: "u32 \<Rightarrow> ring_consumer \<Rightarrow> 'd ring_mem \<Rightarrow> 'd list" where
  "ring_pending sz c m =
     map (\<lambda>i. rm_desc m (ring_slot sz (rc_cached_consumer c + of_nat i))) [0..<unat (consumer_available c)]"

lemma ring_pending_Nil: "rc_cached_consumer c = rc_cached_producer c \<Longrightarrow> ring_pending sz c m = []"
  by (simp add: ring_pending_def consumer_available_def)

lemma consumer_available_Suc:
  assumes "rc_cached_consumer c \<noteq> rc_cached_producer c"
  shows "unat (consumer_available c) =
    Suc (unat (consumer_available (c\<lparr>rc_cached_consumer := rc_cached_consumer c + 1\<rparr>)))"
proof -
  have "consumer_available c \<noteq> 0" using assms by (simp add: consumer_available_def)
  moreover have "consumer_available (c\<lparr>rc_cached_consumer := rc_cached_consumer c + 1\<rparr>) = consumer_available c - 1"
    by (simp add: consumer_available_def algebra_simps)
  ultimately show ?thesis by (simp add: unat_minus_one unat_gt_0)
qed

lemma ring_pending_Cons:
  assumes "rc_cached_consumer c \<noteq> rc_cached_producer c"
  shows "ring_pending sz c m = rm_desc m (ring_slot sz (rc_cached_consumer c)) #
    ring_pending sz (c\<lparr>rc_cached_consumer := rc_cached_consumer c + 1\<rparr>) m"
proof -
  let ?c = "c\<lparr>rc_cached_consumer := rc_cached_consumer c + 1\<rparr>"
  have "[0..<unat (consumer_available c)] = 0 # map Suc [0..<unat (consumer_available ?c)]"
    by (simp only: consumer_available_Suc [OF assms] upt_conv_Cons map_Suc_upt)
  then show ?thesis by (simp add: ring_pending_def add.assoc)
qed

lemma consume_available:
  "consume c = (Some i, c') \<Longrightarrow> unat (consumer_available c') < unat (consumer_available c)"
  using consumer_available_Suc [of c] by (auto simp: consume_def split: if_splits)

text \<open>\<^verbatim>\<open>while let Some(frame_offset) = completion.read() { umem.release(frame_offset) }\<close>\<close>

function drain_completion ::
  "slice_umem \<Rightarrow> tx_completion_ring \<Rightarrow> u64 ring_mem \<Rightarrow> slice_umem \<times> tx_completion_ring" where
  "drain_completion um completion m =
     (case completion_read completion m of
        (None, completion) \<Rightarrow> (um, completion)
      | (Some off, completion) \<Rightarrow> drain_completion (release off um) completion m)"
  by pat_completeness auto
termination
  by (relation "measure (\<lambda>(um, completion, m). unat (consumer_available (tc_consumer completion)))")
    (auto simp: completion_read_def dest: consume_available split: prod.splits option.splits)

declare drain_completion.simps [simp del]

lemma drain_completion_eq:
  "drain_completion um completion m =
     (fold release (ring_pending (tc_size completion) (tc_consumer completion) m) um,
      completion\<lparr>tc_consumer := (tc_consumer completion)\<lparr>rc_cached_consumer := rc_cached_producer (tc_consumer completion)\<rparr>\<rparr>)"
proof (induction um completion m rule: drain_completion.induct)
  case (1 um completion m)
  show ?case
  proof (cases "rc_cached_consumer (tc_consumer completion) = rc_cached_producer (tc_consumer completion)")
    case True
    then show ?thesis
      by (subst drain_completion.simps) (simp add: completion_read_def consume_def ring_pending_Nil)
  next
    case False
    then show ?thesis
      using "1.IH" [OF _ refl]
      by (subst drain_completion.simps) (simp add: completion_read_def consume_def ring_pending_Cons)
  qed
qed

section \<open>Refilling the fill ring\<close>

lemma reserve_length: "reserve um = Some (f, um') \<Longrightarrow> length (available_frames um') < length (available_frames um)"
  by (auto simp: reserve_def split: if_splits)

function refill ::
  "slice_umem \<Rightarrow> rx_fill_ring \<Rightarrow> u64 ring_mem \<Rightarrow> slice_umem \<times> rx_fill_ring \<times> u64 ring_mem" where
  "refill um fill m =
     (if fill_available fill > 0 then
        (case reserve um of
           None \<Rightarrow> (um, fill, m)
         | Some (frame, um) \<Rightarrow>
             (case fill_write frame fill m of
                (Inl _, fill, m) \<Rightarrow> (release (fr_offset frame) um, fill, m)
              | (Inr _, fill, m) \<Rightarrow> refill um fill m))
      else (um, fill, m))"
  by pat_completeness auto
termination
  by (relation "measure (\<lambda>(um, fill, m). length (available_frames um))") (auto dest: reserve_length)

declare refill.simps [simp del]

section \<open>Accounting for frames\<close>

definition frame_index :: "slice_umem \<Rightarrow> frame_offset \<Rightarrow> u64" where
  "frame_index um off = off div ucast (frame_size um)"

abbreviation desc_indices :: "slice_umem \<Rightarrow> xdp_desc list \<Rightarrow> u64 multiset" where
  "desc_indices um ds \<equiv> mset (map (\<lambda>d. frame_index um (xd_addr d)) ds)"

text \<open>
  \<open>owned um K\<close>: the frames the allocator has and the multiset \<open>K\<close> of frames that are somewhere
  else (in a ring, with the kernel) are together all frames of the memory, each exactly once.
\<close>

definition owned :: "slice_umem \<Rightarrow> u64 multiset \<Rightarrow> bool" where
  "owned um K \<longleftrightarrow> frame_size um \<noteq> 0 \<and> length (buffer um) < 2 ^ 63 \<and>
     unat (capacity um) = length (buffer um) div unat (frame_size um) \<and>
     mset (available_frames um) + K = mset_set {i. i < capacity um}"

lemma owned_inv: assumes "owned um K" shows "umem_inv um"
proof -
  have eq: "mset (available_frames um) + K = mset_set {i. i < capacity um}" using assms by (simp only: owned_def)
  have "count (mset (available_frames um)) a \<le> count (mset_set {i. i < capacity um}) a" for a
    unfolding eq [symmetric] by simp
  moreover have "count (mset_set {i. i < capacity um}) a \<le> 1" for a by (simp add: count_mset_set')
  ultimately have "count (mset (available_frames um)) a \<le> 1" for a by (meson order.trans)
  then have "count (mset (available_frames um)) a = (if a \<in> set (available_frames um) then 1 else 0)" for a
    by (metis One_nat_def Suc_leI count_eq_zero_iff le_antisym neq0_conv set_mset_mset)
  then have "distinct (available_frames um)" by (simp add: distinct_count_atmost_1)
  moreover have "set (available_frames um) \<subseteq> {i. i < capacity um}"
    using arg_cong [OF eq, of set_mset] by auto
  ultimately show ?thesis using assms by (auto simp: umem_inv_def owned_def)
qed

lemma inv_owned:
  assumes "umem_inv um"
  shows "owned um (mset_set ({i. i < capacity um} - set (available_frames um)))"
proof -
  let ?A = "set (available_frames um)" and ?C = "{i. i < capacity um}"
  have "mset (available_frames um) = mset_set ?A" using assms by (simp add: umem_inv_def mset_set_set)
  moreover have "?A \<union> (?C - ?A) = ?C" using assms by (auto simp: umem_inv_def)
  moreover have "mset_set (?A \<union> (?C - ?A)) = mset_set ?A + mset_set (?C - ?A)"
    by (intro mset_set_Union) auto
  ultimately show ?thesis using assms by (simp add: owned_def umem_inv_def)
qed

lemma reserve_owned:
  assumes "owned um K" "reserve um = Some (f, um')"
  shows "owned um' (add_mset (frame_index um (fr_offset f)) K)" "frame_index um' = frame_index um"
    "buffer um' = buffer um"
proof -
  let ?i = "last (available_frames um)"
  have ne: "available_frames um \<noteq> []" and f: "fr_offset f = frame_at um ?i"
    and um': "um' = um\<lparr>available_frames := butlast (available_frames um)\<rparr>"
    using assms(2) by (auto simp: reserve_def frame_at_def split: if_splits)
  have "?i < capacity um" using owned_inv [OF assms(1)] ne by (simp add: umem_inv_def)
  then have "frame_index um (fr_offset f) = ?i"
    using frame_at_index [OF owned_inv [OF assms(1)]] by (simp add: frame_index_def f)
  moreover have "mset (available_frames um) = add_mset ?i (mset (butlast (available_frames um)))"
    using ne by (metis append_butlast_last_id mset_append mset.simps add_mset_add_single)
  ultimately show "owned um' (add_mset (frame_index um (fr_offset f)) K)"
    using assms(1) by (simp add: owned_def um')
  show "frame_index um' = frame_index um" "buffer um' = buffer um" by (simp_all add: um' frame_index_def fun_eq_iff)
qed

lemma release_owned:
  assumes "owned um K" "frame_index um off \<in># K"
  shows "owned (release off um) (K - {#frame_index um off#})" "frame_index (release off um) = frame_index um"
proof -
  obtain K' where "K = add_mset (frame_index um off) K'" using assms(2) by (metis multi_member_split)
  then show "owned (release off um) (K - {#frame_index um off#})"
    using assms(1) by (simp add: owned_def release_def frame_index_def)
  show "frame_index (release off um) = frame_index um" by (simp add: release_def frame_index_def fun_eq_iff)
qed

lemma release_all_owned:
  assumes "owned um K" "mset (map (frame_index um) offs) \<subseteq># K"
  shows "owned (fold release offs um) (K - mset (map (frame_index um) offs)) \<and>
    frame_index (fold release offs um) = frame_index um \<and> buffer (fold release offs um) = buffer um"
  using assms
proof (induction offs arbitrary: um K)
  case (Cons off offs)
  have i: "frame_index um off \<in># K" using Cons.prems(2) by (auto dest: mset_subset_eqD)
  note r = release_owned [OF Cons.prems(1) i]
  have sub: "mset (map (frame_index (release off um)) offs) \<subseteq># K - {#frame_index um off#}"
    using Cons.prems(2) i by (simp add: r(2) insert_subset_eq_iff)
  show ?case using Cons.IH [OF r(1) sub] by (simp add: r(2)) (simp add: release_def)
qed simp

section \<open>What is appended to a ring\<close>

text \<open>
  \<open>ring_writes\<close> stores a list at consecutive counter values. \<open>appended ds\<close> relates a
  producer and its ring's memory before and after: the list \<open>ds\<close> was written behind what was
  there, in space that was free, and besides that only the published producer index may differ.
\<close>

primrec ring_writes :: "u32 \<Rightarrow> u32 \<Rightarrow> 'd list \<Rightarrow> (nat \<Rightarrow> 'd) \<Rightarrow> nat \<Rightarrow> 'd" where
  "ring_writes sz b [] f = f"
| "ring_writes sz b (d # ds) f = ring_writes sz (b + 1) ds (f(ring_slot sz b := d))"

definition appended ::
  "u32 \<Rightarrow> 'd list \<Rightarrow> ring_producer \<times> 'd ring_mem \<Rightarrow> ring_producer \<times> 'd ring_mem \<Rightarrow> bool" where
  "appended sz ds s s' = (case (s, s') of ((p, m), (p', m')) \<Rightarrow>
     rp_size p' = rp_size p \<and> rp_cached_consumer p' = rp_cached_consumer p \<and>
     rp_cached_producer p' = rp_cached_producer p + of_nat (length ds) \<and>
     unat (producer_available p') + length ds = unat (producer_available p) \<and>
     rm_desc m' = ring_writes sz (rp_cached_producer p) ds (rm_desc m) \<and>
     rm_consumer m' = rm_consumer m \<and> rm_flags m' = rm_flags m)"

lemma ring_writes_append:
  "ring_writes sz b (as @ bs) f = ring_writes sz (b + of_nat (length as)) bs (ring_writes sz b as f)"
  by (induction as arbitrary: b f) (simp_all add: add.assoc)

lemma appended_refl: "appended sz [] s s"
  by (auto simp: appended_def split: prod.split)

lemma appended_trans: "appended sz as s t \<Longrightarrow> appended sz bs t u \<Longrightarrow> appended sz (as @ bs) s u"
  by (auto simp: appended_def ring_writes_append add.assoc split: prod.splits)

lemma appended_publish: "appended sz ds s (p, m) \<Longrightarrow> appended sz ds s (p, m\<lparr>rm_producer := i\<rparr>)"
  by (auto simp: appended_def split: prod.splits)

lemma unat_Suc_less: "d < (n :: u32) \<Longrightarrow> unat (d + 1) = Suc (unat d)"
  using unsigned_less [of n, where ?'a = nat] by (simp add: unat_word_ariths word_less_nat_alt)

lemma saturating_sub_le: "unat (saturating_sub a b :: u32) \<le> unat a"
  by (simp add: saturating_sub_def unat_sub linorder_not_less)

lemma produce_available:
  assumes "producer_available p \<noteq> 0"
  shows "Suc (unat (producer_available (p\<lparr>rp_cached_producer := rp_cached_producer p + 1\<rparr>))) =
    unat (producer_available p)"
proof -
  define d where "d = rp_cached_producer p - rp_cached_consumer p"
  have e: "producer_available p = saturating_sub (rp_size p) d"
    "producer_available (p\<lparr>rp_cached_producer := rp_cached_producer p + 1\<rparr>) = saturating_sub (rp_size p) (d + 1)"
    by (simp_all add: producer_available_def d_def algebra_simps)
  then have "d < rp_size p" using assms by (auto simp: saturating_sub_def split: if_splits)
  then show ?thesis
    unfolding e using unat_Suc_less [of d "rp_size p"]
    by (simp add: saturating_sub_def word_less_nat_alt unat_sub word_le_nat_alt)
qed

lemma appended_produce:
  "producer_available p \<noteq> 0 \<Longrightarrow>
   appended sz [d] (p, m) (p\<lparr>rp_cached_producer := rp_cached_producer p + 1\<rparr>,
     m\<lparr>rm_desc := (rm_desc m)(ring_slot sz (rp_cached_producer p) := d)\<rparr>)"
  using produce_available by (simp add: appended_def)

lemma ring_writes_other:
  "(\<And>i. i < length ds \<Longrightarrow> ring_slot sz (b + of_nat i) \<noteq> k) \<Longrightarrow> ring_writes sz b ds f k = f k"
proof (induction ds arbitrary: b f)
  case (Cons d ds)
  have "ring_slot sz (b + 1 + of_nat i) \<noteq> k" if "i < length ds" for i
    using Cons.prems [of "Suc i"] that by (simp add: add.assoc)
  then show ?case using Cons.IH Cons.prems [of 0] by simp
qed simp

text \<open>The descriptors appended are found in their slots.\<close>

lemma appended_nth:
  assumes "appended sz ds (p, m) (p', m')" "is_power_of_two sz" "rp_size p = sz" "i < length ds"
  shows "rm_desc m' (ring_slot sz (rp_cached_producer p + of_nat i)) = ds ! i"
proof -
  let ?b = "rp_cached_producer p"
  have "length ds \<le> unat (producer_available p)" using assms(1) by (simp add: appended_def)
  also have "\<dots> \<le> unat sz" using assms(3) saturating_sub_le by (simp add: producer_available_def)
  finally have len: "length ds \<le> unat sz" .
  have ds: "ds = take i ds @ ds ! i # drop (Suc i) ds" using assms(4) by (simp add: id_take_nth_drop)
  have ne: "ring_slot sz (?b + of_nat i + 1 + of_nat j) \<noteq> ring_slot sz (?b + of_nat i)"
    if "j < length (drop (Suc i) ds)" for j
    using ring_slot_distinct [OF assms(2), of i "i + 1 + j" ?b] that len by (auto simp: ac_simps less_diff_conv)
  have o: "ring_writes sz (?b + of_nat i + 1) (drop (Suc i) ds) f (ring_slot sz (?b + of_nat i)) =
      f (ring_slot sz (?b + of_nat i))" for f :: "nat \<Rightarrow> 'a"
    by (rule ring_writes_other) (rule ne)
  have "rm_desc m' = ring_writes sz ?b (take i ds @ ds ! i # drop (Suc i) ds) (rm_desc m)"
    using assms(1) ds by (simp add: appended_def)
  then show ?thesis using assms(4) o by (simp add: ring_writes_append)
qed

definition fill_appended ::
  "frame_offset list \<Rightarrow> rx_fill_ring \<times> u64 ring_mem \<Rightarrow> rx_fill_ring \<times> u64 ring_mem \<Rightarrow> bool" where
  "fill_appended offs s s' \<longleftrightarrow> rf_size (fst s') = rf_size (fst s) \<and> rf_fd (fst s') = rf_fd (fst s) \<and>
     appended (rf_size (fst s)) offs (rf_producer (fst s), snd s) (rf_producer (fst s'), snd s')"

definition tx_appended ::
  "xdp_desc list \<Rightarrow> tx_ring \<times> xdp_desc ring_mem \<Rightarrow> tx_ring \<times> xdp_desc ring_mem \<Rightarrow> bool" where
  "tx_appended ds s s' \<longleftrightarrow> tr_size (fst s') = tr_size (fst s) \<and> tr_fd (fst s') = tr_fd (fst s) \<and>
     appended (tr_size (fst s)) ds (tr_producer (fst s), snd s) (tr_producer (fst s'), snd s')"

lemma ring_appended_refl [simp]: "fill_appended [] s s" "tx_appended [] t t"
  by (simp_all add: fill_appended_def tx_appended_def appended_refl)

lemma fill_appended_trans: "fill_appended as s t \<Longrightarrow> fill_appended bs t u \<Longrightarrow> fill_appended (as @ bs) s u"
  by (auto simp: fill_appended_def intro: appended_trans)

lemma tx_appended_trans: "tx_appended as s t \<Longrightarrow> tx_appended bs t u \<Longrightarrow> tx_appended (as @ bs) s u"
  by (auto simp: tx_appended_def intro: appended_trans)

lemma fill_commit_appended: "fill_appended offs s (fill, m) \<Longrightarrow> fill_appended offs s (fill, fill_commit fill m)"
  by (simp add: fill_appended_def fill_commit_def producer_commit_def appended_publish)

lemma tx_commit_appended: "tx_appended ds s (tx, m) \<Longrightarrow> tx_appended ds s (tx, tx_commit tx m)"
  by (simp add: tx_appended_def tx_commit_def producer_commit_def appended_publish)

lemma fill_write_appended:
  "fill_write frame fill m = (Inr u, fill', m') \<Longrightarrow>
     fill_appended [fr_offset frame] (fill, m) (fill', m') \<and> rm_producer m' = rm_producer m"
  by (auto simp: fill_write_def fill_appended_def produce_def appended_produce split: if_splits)

lemma tx_write_appended:
  "tx_write frame opts tx m = (Inr u, tx', m') \<Longrightarrow>
     tx_appended [\<lparr>xd_addr = fr_offset frame, xd_len = ucast (fr_len frame), xd_options = opts\<rparr>] (tx, m) (tx', m') \<and>
     rm_producer m' = rm_producer m"
  by (auto simp: tx_write_def tx_appended_def produce_def appended_produce split: if_splits)

lemma tx_appended_available:
  "tx_appended ts (tx, m) (tx', m') \<Longrightarrow> tx_available tx' + length ts = tx_available tx"
  by (simp add: tx_appended_def appended_def tx_available_def)

lemma tx_write_full:
  "tx_write frame opts tx m = (Inl e, tx', m') \<Longrightarrow> tx_available tx = 0 \<and> e = frame \<and> tx' = tx \<and> m' = m"
  by (auto simp: tx_write_def produce_def tx_available_def split: if_splits)

lemma refill_owned:
  assumes "refill um fill m = (um', fill', m')" "owned um K"
  shows "\<exists>offs. fill_appended offs (fill, m) (fill', m') \<and>
    owned um' (K + mset (map (frame_index um) offs)) \<and> frame_index um' = frame_index um \<and>
    buffer um' = buffer um \<and> (fill_available fill' = 0 \<or> available_frames um' = []) \<and>
    rm_producer m' = rm_producer m"
  using assms
proof (induction um fill m arbitrary: K rule: refill.induct)
  case (1 um fill m)
  show ?case
  proof (cases "fill_available fill > 0")
    case False
    then show ?thesis
      using "1.prems" by (intro exI [of _ "[]"]) (simp add: refill.simps [of um])
  next
    case True
    show ?thesis
    proof (cases "reserve um")
      case None
      then have "available_frames um = []" by (auto simp: reserve_def split: if_splits)
      then show ?thesis
        using "1.prems" True None by (intro exI [of _ "[]"]) (simp add: refill.simps [of um])
    next
      case (Some p)
      then obtain frame um1 where rs: "reserve um = Some (frame, um1)" by (cases p) auto
      obtain fill1 m1 where w: "fill_write frame fill m = (Inr (), fill1, m1)"
        using True by (auto simp: fill_write_def produce_def fill_available_def unat_gt_0)
      note a = fill_write_appended [OF w]
      have "refill um1 fill1 m1 = (um', fill', m')"
        using "1.prems"(1) True rs w by (simp add: refill.simps [of um])
      from "1.IH" [OF True rs refl w [symmetric] refl refl this reserve_owned(1) [OF "1.prems"(2) rs]]
      obtain offs where "fill_appended offs (fill1, m1) (fill', m')"
        "owned um' (add_mset (frame_index um (fr_offset frame)) K + mset (map (frame_index um1) offs))"
        "frame_index um' = frame_index um1" "buffer um' = buffer um1"
        "fill_available fill' = 0 \<or> available_frames um' = []"
        "rm_producer m' = rm_producer m1" by blast
      then show ?thesis
        using fill_appended_trans [OF conjunct1 [OF a]] a reserve_owned(2,3) [OF "1.prems"(2) rs]
        by (intro exI [of _ "fr_offset frame # offs"]) simp
    qed
  qed
qed

section \<open>The contents of frames\<close>

lemma put_frame_facts:
  assumes "put_frame f b um = Some um'"
  shows "available_frames um' = available_frames um" "frame_size um' = frame_size um"
    "length (buffer um') = length (buffer um)" "frame_index um' = frame_index um" "owned um' K = owned um K"
    "capacity um' = capacity um"
  using assms by (auto simp: put_frame_def frame_index_def owned_def fun_eq_iff dest: copy_at_length)

lemma put_frame_fits:
  "unat (fr_offset f) + length b \<le> length (buffer um) \<Longrightarrow> \<exists>um'. put_frame f b um = Some um'"
  using copy_at_fits by (fastforce simp: put_frame_def)

lemma map_put_same:
  "put_frame f b um = Some um' \<Longrightarrow> length b = unat (fr_len f) \<Longrightarrow> map_frame um' f = Some b"
  by (auto simp: put_frame_def map_frame_def subslice_def copy_at_eq_Some_iff)

text \<open>Two frames that share no byte; writing one leaves the other alone.\<close>

definition apart :: "umem_frame \<Rightarrow> umem_frame \<Rightarrow> bool" where
  "apart f g \<longleftrightarrow> unat (fr_offset f) + unat (fr_len f) \<le> unat (fr_offset g) \<or>
     unat (fr_offset g) + unat (fr_len g) \<le> unat (fr_offset f)"

lemma apart_sym: "apart f g \<longleftrightarrow> apart g f"
  by (auto simp: apart_def)

lemma map_put_apart:
  assumes "put_frame f b um = Some um'" "length b = unat (fr_len f)" "apart f g"
  shows "map_frame um' g = map_frame um g"
proof -
  have "length (buffer um') = length (buffer um)" by (rule put_frame_facts(3) [OF assms(1)])
  moreover have "take n (drop k (buffer um')) = take n (drop k (buffer um))"
    if k: "k = unat (fr_offset g)" "n = unat (fr_len g)" "k + n \<le> length (buffer um)" for k n
  proof (rule nth_equalityI)
    fix i assume "i < length (take n (drop k (buffer um')))"
    then show "take n (drop k (buffer um')) ! i = take n (drop k (buffer um)) ! i"
      using copy_at_nth [of "unat (fr_offset f)" b "buffer um" "buffer um'" "k + i"] assms k
      by (auto simp: put_frame_def apart_def)
  qed (simp add: calculation)
  ultimately show ?thesis by (auto simp: map_frame_def subslice_def)
qed

end
