(* ===== verification/Rx_Loop.thy ===== *)
theory Rx_Loop
  imports Loop_Common
begin

text \<open>
  \<^verbatim>\<open>src/src/rx_loop.rs\<close>: start-up, pre-filling and the receive loop. Between two iterations
  the kernel may change the ring memory in any way; the exit flag and the kernel's changes are
  the loop's inputs, one pair per iteration.
\<close>

section \<open>The loop\<close>

record rx_stats =
  st_rx_packets :: usize
  st_rx_bytes :: usize

record rx_state =
  rl_umem :: slice_umem
  rl_fill :: rx_fill_ring
  rl_ring :: rx_ring
  rl_stats :: rx_stats

function drain_rx ::
  "slice_umem \<Rightarrow> rx_stats \<Rightarrow> rx_ring \<Rightarrow> xdp_desc ring_mem \<Rightarrow> slice_umem \<times> rx_stats \<times> rx_ring" where
  "drain_rx um stats ring m =
     (case rx_read ring m of
        (None, ring) \<Rightarrow> (um, stats, ring)
      | (Some desc, ring) \<Rightarrow>
          let packet_len = ucast (xd_len desc);
              stats = stats\<lparr>st_rx_packets := st_rx_packets stats + 1,
                            st_rx_bytes := st_rx_bytes stats + packet_len\<rparr>
          in drain_rx (release (xd_addr desc) um) stats ring m)"
  by pat_completeness auto
termination
  by (relation "measure (\<lambda>(um, stats, ring, m). unat (consumer_available (rr_consumer ring)))")
    (auto simp: rx_read_def dest: consume_available split: prod.splits option.splits)

declare drain_rx.simps [simp del]

definition rx_iteration :: "rx_state \<Rightarrow> xsk_mem \<Rightarrow> rx_state \<times> xsk_mem" where
  "rx_iteration st mem =
     (let (ring, rxm) = rx_sync False (rl_ring st) (xm_rx mem);
          (um, stats, ring) = drain_rx (rl_umem st) (rl_stats st) ring rxm;
          rxm = rx_commit ring rxm;
          (fill, fm) = fill_sync False (rl_fill st) (xm_fill mem);
          (um, fill, fm) = refill um fill fm;
          fm = fill_commit fill fm
      in (\<lparr>rl_umem = um, rl_fill = fill, rl_ring = ring, rl_stats = stats\<rparr>,
          mem\<lparr>xm_rx := rxm, xm_fill := fm\<rparr>))"

text \<open>The loop on its inputs; \<^term>\<open>None\<close> when they end before the exit flag is set.\<close>

fun rx_main ::
  "(bool \<times> (xsk_mem \<Rightarrow> xsk_mem)) list \<Rightarrow> rx_state \<Rightarrow> xsk_mem \<Rightarrow> (rx_state \<times> xsk_mem) option" where
  "rx_main [] st mem = None"
| "rx_main ((exit, kern) # inputs) st mem =
     (if exit then Some (st, kern mem)
      else case rx_iteration st (kern mem) of (st, mem) \<Rightarrow> rx_main inputs st mem)"

definition rx_loop_start ::
  "loop_sys \<Rightarrow> device_sys \<Rightarrow> xsk_sys \<Rightarrow> bool \<Rightarrow> usize \<Rightarrow> network_device \<Rightarrow> u64 \<Rightarrow> bool \<Rightarrow> rx_stats
     \<Rightarrow> (rx_state \<times> xsk_mem) io_result" where
  "rx_loop_start sys dsys xsys dbg cpu_id dev queue_id zero_copy stats =
     rbind (unwrap (set_cpu_affinity sys [cpu_id])) (\<lambda>_.
     rbind (unwrap (open_queue dsys dev queue_id)) (\<lambda>queue.
     let rx_size = rs_rx (case dq_ring_sizes queue of Some s \<Rightarrow> s | None \<Rightarrow> ring_sizes_default) in
     rbind (if dbg \<and> mul_overflows rx_size 2 then Inl (Panic ''attempt to multiply with overflow'')
            else Inr (rx_size * 2)) (\<lambda>frame_count.
     rbind (frames_umem sys dbg frame_count) (\<lambda>(umem_ptr, um).
     rbind (raise_privileges sys) (\<lambda>_.
     case socket_rx xsys dbg umem_ptr queue um zero_copy rx_size rx_size of
       Inl _ \<Rightarrow> Inl (Panic ''failed to create AF_XDP socket'')
     | Inr (socket, rx, mem) \<Rightarrow>
         (case rx_ring rx of
            None \<Rightarrow> Inl (Panic ''called Option::unwrap() on a None value'')
          | Some ring \<Rightarrow>
              rbind (raise_caps (ls_caps_drop sys) [CAP_NET_ADMIN, CAP_NET_RAW]) (\<lambda>_.
              case refill (sk_umem socket) (rx_fill rx) (xm_fill mem) of
                (um, fill, fm) \<Rightarrow>
                  Inr (\<lparr>rl_umem = um, rl_fill = fill, rl_ring = ring, rl_stats = stats\<rparr>,
                       mem\<lparr>xm_fill := fill_commit fill fm\<rparr>))))))))"

section \<open>What an iteration does\<close>

lemma drain_rx_eq:
  "drain_rx um stats ring m =
     (let descs = ring_pending (rr_size ring) (rr_consumer ring) m in
      (fold release (map xd_addr descs) um,
       stats\<lparr>st_rx_packets := st_rx_packets stats + of_nat (length descs),
             st_rx_bytes := st_rx_bytes stats + sum_list (map (ucast \<circ> xd_len) descs)\<rparr>,
       ring\<lparr>rr_consumer := (rr_consumer ring)\<lparr>rc_cached_consumer := rc_cached_producer (rr_consumer ring)\<rparr>\<rparr>))"
proof (induction um stats ring m rule: drain_rx.induct)
  case (1 um stats ring m)
  show ?case
  proof (cases "rc_cached_consumer (rr_consumer ring) = rc_cached_producer (rr_consumer ring)")
    case True
    then show ?thesis
      by (subst drain_rx.simps) (simp add: rx_read_def consume_def ring_pending_Nil)
  next
    case False
    then show ?thesis
      using "1.IH" [OF _ refl refl refl]
      by (subst drain_rx.simps) (simp add: rx_read_def consume_def ring_pending_Cons Let_def add.assoc comp_def)
  qed
qed

text \<open>The descriptors an iteration reads: those published when it syncs.\<close>

definition rx_received :: "rx_state \<Rightarrow> xsk_mem \<Rightarrow> xdp_desc list" where
  "rx_received st mem =
     ring_pending (rr_size (rl_ring st))
       ((rr_consumer (rl_ring st))\<lparr>rc_cached_producer := rm_producer (xm_rx mem)\<rparr>) (xm_rx mem)"

text \<open>
  C30. An iteration of the receive loop loses no frame and duplicates none. If the allocator and
  the kernel together own every frame once, and the kernel publishes descriptors only of frames
  it owns, then after the iteration the allocator and the kernel again own every frame once:
  the received frames went to the allocator, the frames newly written to the fill ring to the
  kernel. Everything received is acknowledged (the consumer index published), everything
  written to the fill ring is published, the ring is full or the allocator empty, and the
  counters grew by the number of packets and bytes received.
\<close>

theorem rx_iteration_conserves_frames:
  assumes "owned (rl_umem st) K"
    and "mset (map (frame_index (rl_umem st) \<circ> xd_addr) (rx_received st mem)) \<subseteq># K"
    and "rx_iteration st mem = (st', mem')"
  shows "\<exists>offs. owned (rl_umem st') (K - mset (map (frame_index (rl_umem st) \<circ> xd_addr) (rx_received st mem))
        + mset (map (frame_index (rl_umem st)) offs)) \<and>
      fill_appended offs (fill_sync False (rl_fill st) (xm_fill mem)) (rl_fill st', xm_fill mem') \<and>
      rm_producer (xm_fill mem') = rp_cached_producer (rf_producer (rl_fill st)) + of_nat (length offs) \<and>
      rm_consumer (xm_rx mem') = rm_producer (xm_rx mem) \<and>
      (fill_available (rl_fill st') = 0 \<or> available_frames (rl_umem st') = []) \<and>
      st_rx_packets (rl_stats st') = st_rx_packets (rl_stats st) + of_nat (length (rx_received st mem)) \<and>
      st_rx_bytes (rl_stats st') = st_rx_bytes (rl_stats st)
        + sum_list (map (ucast \<circ> xd_len) (rx_received st mem))"
proof -
  let ?um = "rl_umem st" and ?descs = "rx_received st mem"
  define um1 where "um1 = fold release (map xd_addr ?descs) ?um"
  obtain fill fm where s: "fill_sync False (rl_fill st) (xm_fill mem) = (fill, fm)" by fastforce
  obtain um2 fill2 fm2 where r: "refill um1 fill fm = (um2, fill2, fm2)" by (metis prod_cases3)
  have f: "rp_cached_producer (rf_producer fill) = rp_cached_producer (rf_producer (rl_fill st))"
    using s by (auto simp: fill_sync_def producer_sync_def Let_def)
  have it: "rl_umem st' = um2" "rl_fill st' = fill2" "xm_fill mem' = fill_commit fill2 fm2"
    "rm_consumer (xm_rx mem') = rm_producer (xm_rx mem)"
    "st_rx_packets (rl_stats st') = st_rx_packets (rl_stats st) + of_nat (length ?descs)"
    "st_rx_bytes (rl_stats st') = st_rx_bytes (rl_stats st) + sum_list (map (ucast \<circ> xd_len) ?descs)"
    using assms(3) r s unfolding um1_def
    by (auto simp: rx_iteration_def rx_sync_def consumer_sync_def drain_rx_eq rx_received_def Let_def
        rx_commit_def consumer_commit_def)
  have o1: "owned um1 (K - mset (map (frame_index ?um \<circ> xd_addr) ?descs))" "frame_index um1 = frame_index ?um"
    using release_all_owned [OF assms(1), of "map xd_addr ?descs"] assms(2) by (simp_all add: um1_def)
  from refill_owned [OF r o1(1)] obtain offs where
    o: "fill_appended offs (fill, fm) (fill2, fm2)"
      "owned um2 (K - mset (map (frame_index ?um \<circ> xd_addr) ?descs) + mset (map (frame_index um1) offs))"
      "fill_available fill2 = 0 \<or> available_frames um2 = []" by blast
  then show ?thesis
    using it f o1(2) s fill_commit_appended [OF o(1)]
    by (intro exI [of _ offs])
      (simp add: fill_commit_def producer_commit_def fill_appended_def appended_def)
qed

text \<open>A memory of two frames: the kernel owns frame 0 and delivers it.\<close>

definition one_packet :: "rx_state \<times> xsk_mem" where
  "one_packet =
     (let um = \<lparr>rm_producer = 1, rm_consumer = 1, rm_desc = \<lambda>_. 0, rm_flags = 0\<rparr>;
          dm = \<lparr>rm_producer = 1, rm_consumer = 0,
                rm_desc = \<lambda>_. \<lparr>xd_addr = 0, xd_len = 3, xd_options = 0\<rparr>, rm_flags = 0\<rparr> in
      (\<lparr>rl_umem = small_umem [1], rl_fill = \<lparr>rf_producer = producer_new um 2, rf_size = 2, rf_fd = 3\<rparr>,
        rl_ring = \<lparr>rr_consumer = \<lparr>rc_cached_producer = 0, rc_cached_consumer = 0\<rparr>, rr_size = 2, rr_fd = 3\<rparr>,
        rl_stats = \<lparr>st_rx_packets = 0, st_rx_bytes = 0\<rparr>\<rparr>,
       \<lparr>xm_completion = um, xm_fill = um, xm_tx = dm, xm_rx = dm\<rparr>))"

lemma small_umem_owned: "owned (small_umem [1]) {#0#}" "owned (small_umem [0, 1]) {#}"
proof -
  have "{..<2 :: nat} = {0, 1}" by auto
  then have "{i :: u64. i < 2} = {0, 1}" by (simp add: words_below)
  then show "owned (small_umem [1]) {#0#}" "owned (small_umem [0, 1]) {#}"
    by (simp_all add: owned_def small_umem_def)
qed

lemma one_packet_received:
  "rx_received (fst one_packet) (snd one_packet) = [\<lparr>xd_addr = 0, xd_len = 3, xd_options = 0\<rparr>]"
  by (simp add: rx_received_def one_packet_def Let_def ring_pending_def consumer_available_def)

theorem rx_iteration_conserves_frames_witness:
  "case rx_iteration (fst one_packet) (snd one_packet) of (st', mem') \<Rightarrow>
    \<exists>offs. owned (rl_umem st') ({#0#} - mset (map (frame_index (rl_umem (fst one_packet)) \<circ> xd_addr)
          (rx_received (fst one_packet) (snd one_packet)))
        + mset (map (frame_index (rl_umem (fst one_packet))) offs)) \<and>
      fill_appended offs (fill_sync False (rl_fill (fst one_packet)) (xm_fill (snd one_packet)))
        (rl_fill st', xm_fill mem') \<and>
      rm_producer (xm_fill mem') = rp_cached_producer (rf_producer (rl_fill (fst one_packet))) + of_nat (length offs) \<and>
      rm_consumer (xm_rx mem') = rm_producer (xm_rx (snd one_packet)) \<and>
      (fill_available (rl_fill st') = 0 \<or> available_frames (rl_umem st') = []) \<and>
      st_rx_packets (rl_stats st') = st_rx_packets (rl_stats (fst one_packet))
        + of_nat (length (rx_received (fst one_packet) (snd one_packet))) \<and>
      st_rx_bytes (rl_stats st') = st_rx_bytes (rl_stats (fst one_packet))
        + sum_list (map (ucast \<circ> xd_len) (rx_received (fst one_packet) (snd one_packet)))"
proof -
  obtain st' mem' where it: "rx_iteration (fst one_packet) (snd one_packet) = (st', mem')" by (metis surj_pair)
  show ?thesis
    unfolding it prod.case
    by (rule rx_iteration_conserves_frames [OF _ _ it])
      (simp_all add: one_packet_received, simp_all add: one_packet_def Let_def small_umem_owned
        frame_index_def)
qed

end
