(* ===== verification/Packet.thy ===== *)
theory Packet
  imports Net_Addr "HOL-Library.Monad_Syntax"
begin

text \<open>
  \<^verbatim>\<open>src/src/packet.rs\<close>: the Ethernet, IPv4 and UDP header writers and the internet
  checksum. A packet is a byte list; \<^term>\<open>None\<close> is the panic of an index out of range.
\<close>

section \<open>Header writers and checksums\<close>

definition ETH_HEADER_SIZE :: nat where "ETH_HEADER_SIZE = 14"
definition IP_HEADER_SIZE :: nat where "IP_HEADER_SIZE = 20"
definition UDP_HEADER_SIZE :: nat where "UDP_HEADER_SIZE = 8"

lemmas header_sizes = ETH_HEADER_SIZE_def IP_HEADER_SIZE_def UDP_HEADER_SIZE_def

text \<open>\<^verbatim>\<open>ETH_P_IP\<close> of libc.\<close>

definition ETH_P_IP :: u16 where "ETH_P_IP = 0x0800"

definition set_at :: "nat \<Rightarrow> 'a \<Rightarrow> 'a list \<Rightarrow> 'a list option" where
  "set_at i v xs = (if i < length xs then Some (xs[i := v]) else None)"

definition write_eth_header :: "u8 list \<Rightarrow> mac_address \<Rightarrow> mac_address \<Rightarrow> u8 list option" where
  "write_eth_header packet src_mac dst_mac = do {
     p \<leftarrow> copy_at 0 (as_bytes dst_mac) packet;
     p \<leftarrow> copy_at 6 (as_bytes src_mac) p;
     copy_at 12 (u16_to_be_bytes ETH_P_IP) p
   }"

text \<open>The 16-bit word at index \<open>i\<close>, most significant byte first.\<close>

definition be_word :: "u8 list \<Rightarrow> nat \<Rightarrow> u32" where
  "be_word xs i = push_bit 8 (ucast (xs ! (i * 2))) OR ucast (xs ! (i * 2 + 1))"

text \<open>The loop \<^verbatim>\<open>while sum >> 16 != 0 { sum = (sum & 0xFFFF) + (sum >> 16) }\<close>.\<close>

lemma fold_carry_step_nat:
  "unat ((s AND 0xFFFF) + drop_bit 16 s :: u32) = unat s mod 65536 + unat s div 65536"
proof -
  have m: "unat (s AND 0xFFFF) = unat s mod 65536"
    using unat_and_mask [of s 16] by (simp add: mask_eq_exp_minus_1)
  have d: "unat (drop_bit 16 s) = unat s div 65536"
    by (simp only: unat_drop_bit) simp
  have "unat s < 2 ^ 32" using unat_less_exp [of s] by simp
  then have "unat s mod 65536 + unat s div 65536 < 2 ^ 32"
    using div_le_mono [of "unat s" "2 ^ 32 - 1" 65536] mod_less_divisor [of 65536 "unat s"] by simp
  then show ?thesis by (simp add: unat_word_ariths m d)
qed

function fold_carry :: "u32 \<Rightarrow> u32" where
  "fold_carry s = (if drop_bit 16 s \<noteq> 0 then fold_carry ((s AND 0xFFFF) + drop_bit 16 s) else s)"
  by pat_completeness auto
termination
proof (relation "measure unat")
  fix s :: u32
  assume "drop_bit 16 s \<noteq> 0"
  then have "unat (drop_bit 16 s) \<noteq> 0" by (metis unsigned_0 word_unat_eq_iff)
  then have "unat s div 65536 \<noteq> 0" by (simp only: unat_drop_bit) simp
  then have "unat s mod 65536 + unat s div 65536 < unat s"
    using div_mult_mod_eq [of "unat s" 65536] by linarith
  then show "((s AND 0xFFFF) + drop_bit 16 s, s) \<in> measure unat"
    by (simp only: in_measure fold_carry_step_nat)
qed simp

declare fold_carry.simps [simp del]

definition calculate_ip_checksum :: "u8 list \<Rightarrow> u16" where
  "calculate_ip_checksum header =
     (let sum = foldl (\<lambda>s i. s + be_word header i) 0 [0..<length header div 2];
          sum = (if length header mod 2 = 1
                 then sum + push_bit 8 (ucast (header ! (length header - 1))) else sum)
      in NOT (ucast (fold_carry sum)))"

definition write_ip_header ::
  "u8 list \<Rightarrow> ipv4_addr \<Rightarrow> ipv4_addr \<Rightarrow> u16 \<Rightarrow> u8 list option"
where
  "write_ip_header packet src_ip dst_ip udp_len = do {
     let total_len = IP_HEADER_SIZE + unat udp_len;
     p \<leftarrow> set_at 0 0x45 packet;
     p \<leftarrow> set_at 1 0 p;
     p \<leftarrow> copy_at 2 (u16_to_be_bytes (of_nat total_len)) p;
     p \<leftarrow> copy_at 4 (u16_to_be_bytes 0) p;
     p \<leftarrow> copy_at 6 (u16_to_be_bytes 0) p;
     p \<leftarrow> set_at 8 64 p;
     p \<leftarrow> set_at 9 17 p;
     p \<leftarrow> copy_at 10 (u16_to_be_bytes 0) p;
     p \<leftarrow> copy_at 12 (octets src_ip) p;
     p \<leftarrow> copy_at 16 (octets dst_ip) p;
     header \<leftarrow> subslice 0 IP_HEADER_SIZE p;
     let checksum = calculate_ip_checksum header;
     copy_at 10 (u16_to_be_bytes checksum) p
   }"

definition pseudo_header_sum :: "ipv4_addr \<Rightarrow> ipv4_addr \<Rightarrow> nat \<Rightarrow> u32" where
  "pseudo_header_sum src_ip dst_ip udp_len =
     be_word (octets src_ip) 0 + be_word (octets src_ip) 1
     + be_word (octets dst_ip) 0 + be_word (octets dst_ip) 1 + 17 + of_nat udp_len"

definition calculate_udp_checksum :: "u8 list \<Rightarrow> ipv4_addr \<Rightarrow> ipv4_addr \<Rightarrow> u16" where
  "calculate_udp_checksum udp_packet src_ip dst_ip =
     (let udp_len = length udp_packet;
          sum = pseudo_header_sum src_ip dst_ip udp_len;
          sum = foldl (\<lambda>s i. if i * 2 = 6 then s else s + be_word udp_packet i) sum
                  [0..<udp_len div 2];
          sum = (if udp_len mod 2 = 1
                 then sum + push_bit 8 (ucast (udp_packet ! (udp_len - 1))) else sum)
      in NOT (ucast (fold_carry sum)))"

definition write_udp_header ::
  "u8 list \<Rightarrow> ipv4_addr \<Rightarrow> u16 \<Rightarrow> ipv4_addr \<Rightarrow> u16 \<Rightarrow> u16 \<Rightarrow> bool \<Rightarrow> u8 list option"
where
  "write_udp_header packet src_ip src_port dst_ip dst_port payload_len csum = do {
     let udp_len = UDP_HEADER_SIZE + unat payload_len;
     p \<leftarrow> copy_at 0 (u16_to_be_bytes src_port) packet;
     p \<leftarrow> copy_at 2 (u16_to_be_bytes dst_port) p;
     p \<leftarrow> copy_at 4 (u16_to_be_bytes (of_nat udp_len)) p;
     p \<leftarrow> copy_at 6 (u16_to_be_bytes 0) p;
     if csum then do {
       udp_packet \<leftarrow> subslice 0 udp_len p;
       copy_at 6 (u16_to_be_bytes (calculate_udp_checksum udp_packet src_ip dst_ip)) p
     } else Some p
   }"

section \<open>Ones' complement sums\<close>

definition ones_sum :: "nat \<Rightarrow> nat" where
  "ones_sum n = (if n = 0 then 0 else if n mod 65535 = 0 then 65535 else n mod 65535)"

lemma ones_sum_step: "ones_sum (n mod 65536 + n div 65536) = ones_sum n"
proof -
  let ?m = "n mod 65536 + n div 65536"
  have "n = ?m + 65535 * (n div 65536)" using mult_div_mod_eq [of 65536 n] by linarith
  then have "n mod 65535 = ?m mod 65535" by (metis mod_mult_self2)
  moreover have "n = 0 \<longleftrightarrow> ?m = 0" by auto
  ultimately show ?thesis by (simp add: ones_sum_def)
qed

lemma ones_sum_small: "n < 65536 \<Longrightarrow> ones_sum n = n"
  by (cases "n = 65535") (simp_all add: ones_sum_def)

lemma fold_carry_nat: "unat (fold_carry s) = ones_sum (unat s)"
proof (induction s rule: fold_carry.induct)
  case (1 s)
  show ?case
  proof (cases "drop_bit 16 s = 0")
    case True
    then have "unat s div 65536 = 0" using unat_drop_bit [of 16 s] by simp
    then have "unat s < 65536" by auto
    with True show ?thesis by (simp add: fold_carry.simps [of s] ones_sum_small)
  next
    case False
    with 1 show ?thesis
      by (simp add: fold_carry.simps [of s] fold_carry_step_nat ones_sum_step)
  qed
qed

lemma ones_sum_le: "ones_sum n \<le> 65535" by (auto simp: ones_sum_def intro: less_imp_le)

lemma unat_not_u16: "unat (NOT (w :: u16)) = 65535 - unat w"
proof -
  have "NOT w = 65535 - w" by (simp add: not_eq_complement)
  moreover have "w \<le> 65535" using unat_less_exp [of w] by (simp add: word_le_nat_alt)
  ultimately show ?thesis by (simp add: unat_sub)
qed

lemma unat_checksum: "unat (NOT (ucast (fold_carry s) :: u16)) = 65535 - ones_sum (unat s)"
  using ones_sum_le [of "unat s"] by (simp add: unat_not_u16 unat_ucast_mod fold_carry_nat)

lemma checksum_cancels:
  assumes "0 < n" shows "ones_sum (n + (65535 - ones_sum n)) = 65535"
proof (cases "n mod 65535 = 0")
  case True
  then show ?thesis using assms by (simp add: ones_sum_def)
next
  case False
  have "n = n div 65535 * 65535 + n mod 65535" by simp
  moreover have "n mod 65535 < 65535" by simp
  moreover have "Suc (n div 65535) * 65535 = n div 65535 * 65535 + 65535" by simp
  ultimately have "n + (65535 - n mod 65535) = Suc (n div 65535) * 65535" by linarith
  then have "(n + (65535 - n mod 65535)) mod 65535 = 0" by (metis mod_mult_self2_is_0)
  then show ?thesis using False assms by (simp add: ones_sum_def)
qed


lemma unat_be_word: "unat (be_word xs i) = 256 * unat (xs ! (i * 2)) + unat (xs ! (i * 2 + 1))"
proof -
  let ?h = "xs ! (i * 2)" and ?l = "xs ! (i * 2 + 1)"
  have "push_bit 8 (ucast ?h :: u32) OR ucast ?l = push_bit 8 (ucast ?h) + ucast ?l"
    by (rule disjunctive_add_eq_or [symmetric]) (auto simp: bit_eq_iff bit_simps dest: bit_imp_le_length)
  moreover have "push_bit 8 (ucast ?h :: u32) = 256 * ucast ?h" by (simp add: push_bit_eq_mult)
  moreover have "unat (256 * ucast ?h + ucast ?l :: u32) = 256 * unat ?h + unat ?l"
    using unat_less_exp [of ?h] unat_less_exp [of ?l]
    by (simp add: unat_word_ariths unat_ucast_up mod_less)
  ultimately show ?thesis by (simp add: be_word_def)
qed

text \<open>The sum of the 16-bit words of a byte list, an odd last byte padded with zero.\<close>

fun inet_sum :: "u8 list \<Rightarrow> nat" where
  "inet_sum [] = 0"
| "inet_sum [b] = 256 * unat b"
| "inet_sum (a # b # xs) = 256 * unat a + unat b + inet_sum xs"

lemma inet_sum_bound: "inet_sum xs \<le> 65535 * ((length xs + 1) div 2)"
proof (induction xs rule: inet_sum.induct)
  case (2 b)
  then show ?case using unat_less_exp [of b] by simp
next
  case (3 a b xs)
  then show ?case using unat_less_exp [of a] unat_less_exp [of b] by simp
qed simp

lemma be_word_Cons2: "be_word (a # b # xs) (Suc i) = be_word xs i"
  by (simp add: be_word_def)

lemma foldl_plus_word: "foldl (\<lambda>s i. s + f i) (a :: 'a::len word) is = a + foldl (\<lambda>s i. s + f i) 0 is"
proof (induction "is" arbitrary: a)
  case (Cons x xs)
  show ?case using Cons [of "a + f x"] Cons [of "0 + f x"] by (simp add: add.assoc)
qed simp

definition sum_words :: "u8 list \<Rightarrow> u32" where
  "sum_words xs = foldl (\<lambda>s i. s + be_word xs i) 0 [0..<length xs div 2]
     + (if length xs mod 2 = 1 then push_bit 8 (ucast (xs ! (length xs - 1))) else 0)"

lemma sum_words_inet: "sum_words xs = of_nat (inet_sum xs)"
proof (induction xs rule: inet_sum.induct)
  case (2 b)
  have "push_bit 8 (ucast b :: u32) = 256 * ucast b" by (simp add: push_bit_eq_mult)
  then show ?case by (simp add: sum_words_def)
next
  case (3 a b xs)
  have "[0..<length (a # b # xs) div 2] = 0 # map Suc [0..<length xs div 2]"
    by (simp add: upt_conv_Cons map_Suc_upt del: upt_Suc)
  then have "foldl (\<lambda>s i. s + be_word (a # b # xs) i) 0 [0..<length (a # b # xs) div 2]
      = be_word (a # b # xs) 0 + foldl (\<lambda>s i. s + be_word xs i) 0 [0..<length xs div 2]"
    by (simp add: foldl_map be_word_Cons2 foldl_plus_word [of _ "be_word _ _"])
  moreover have "be_word (a # b # xs) 0 = of_nat (256 * unat a + unat b)"
  proof -
    have "of_nat (unat (be_word (a # b # xs) 0)) = be_word (a # b # xs) 0" by simp
    then show ?thesis using unat_be_word [of "a # b # xs" 0] by simp
  qed
  moreover have "(if length (a # b # xs) mod 2 = 1 then push_bit 8 (ucast ((a # b # xs) ! (length (a # b # xs) - 1))) else 0 :: u32)
     = (if length xs mod 2 = 1 then push_bit 8 (ucast (xs ! (length xs - 1))) else 0)"
    by (cases xs) auto
  ultimately show ?case using 3 by (simp only: sum_words_def inet_sum.simps of_nat_add add.assoc)
qed (simp add: sum_words_def)

lemma calculate_ip_checksum_eq: "calculate_ip_checksum xs = NOT (ucast (fold_carry (sum_words xs)))"
  by (simp add: calculate_ip_checksum_def sum_words_def)

lemma unat_ip_checksum:
  assumes "length xs \<le> 65536"
  shows "unat (calculate_ip_checksum xs) = 65535 - ones_sum (inet_sum xs)"
proof -
  have "(length xs + 1) div 2 \<le> 32768" using assms by simp
  then have "inet_sum xs \<le> 65535 * 32768"
    using order_trans [OF inet_sum_bound [of xs] mult_le_mono2] by blast
  then have "unat (of_nat (inet_sum xs) :: u32) = inet_sum xs" by (simp add: unat_of_nat)
  then show ?thesis by (simp add: calculate_ip_checksum_eq unat_checksum sum_words_inet)
qed


definition ip_header_bytes :: "ipv4_addr \<Rightarrow> ipv4_addr \<Rightarrow> u16 \<Rightarrow> u16 \<Rightarrow> u8 list" where
  "ip_header_bytes src dst tot csum =
     [0x45, 0] @ u16_to_be_bytes tot @ [0, 0, 0, 0, 64, 17] @ u16_to_be_bytes csum
     @ octets src @ octets dst"

lemma write_ip_header_eq:
  assumes "20 \<le> length p"
  shows "write_ip_header p src dst n =
    Some (ip_header_bytes src dst (of_nat (20 + unat n))
       (calculate_ip_checksum (ip_header_bytes src dst (of_nat (20 + unat n)) 0)) @ drop 20 p)"
proof -
  obtain a0 a1 a2 a3 a4 a5 a6 a7 a8 a9 a10 a11 a12 a13 a14 a15 a16 a17 a18 a19 r where
    p: "p = [a0, a1, a2, a3, a4, a5, a6, a7, a8, a9, a10, a11, a12, a13, a14, a15, a16, a17, a18, a19] @ r"
    using assms by (auto simp: numeral_eq_Suc Suc_le_length_iff)
  obtain s0 s1 s2 s3 where s: "src = Ipv4Addr s0 s1 s2 s3" by (cases src)
  obtain d0 d1 d2 d3 where d: "dst = Ipv4Addr d0 d1 d2 d3" by (cases dst)
  show ?thesis
    by (simp add: write_ip_header_def ip_header_bytes_def p s d set_at_def copy_at_def subslice_def u16_to_be_bytes_def IP_HEADER_SIZE_def Let_def)
qed


lemma inet_sum_u16: "inet_sum (u16_to_be_bytes w @ xs) = unat w + inet_sum xs"
proof -
  have "u16_from_be_bytes (ucast (drop_bit 8 w)) (ucast w) = w"
    by (rule u16_be_bytes_roundtrip) (simp add: u16_to_be_bytes_def)
  then have "256 * unat (ucast (drop_bit 8 w) :: u8) + unat (ucast w :: u8) = unat w"
    using unat_u16_from_be_bytes [of "ucast (drop_bit 8 w)" "ucast w"] by simp
  then show ?thesis by (simp add: u16_to_be_bytes_def)
qed

lemma inet_sum_ip_header:
  "inet_sum (ip_header_bytes src dst tot csum) = unat csum + inet_sum (ip_header_bytes src dst tot 0)"
proof -
  have e: "inet_sum (ip_header_bytes src dst tot csum) = 
     256 * 0x45 + unat tot + (256 * 64 + 17) + unat csum + inet_sum (octets src @ octets dst)" for csum
    unfolding ip_header_bytes_def append.append_Cons append.append_Nil append_assoc inet_sum.simps inet_sum_u16 by simp
  show ?thesis using e [of csum] e [of 0] by simp
qed

lemma ip_header_pos: "0 < inet_sum (ip_header_bytes src dst tot 0)"
  by (simp add: ip_header_bytes_def)

lemma length_ip_header_bytes [simp]: "length (ip_header_bytes src dst tot csum) = 20"
  by (simp add: ip_header_bytes_def)


lemma set_at_fitsD: "set_at i v xs = Some ys \<Longrightarrow> i < length xs \<and> length ys = length xs"
  by (auto simp: set_at_def split: if_splits)

lemma write_ip_header_long:
  assumes "write_ip_header packet src dst n = Some q" shows "20 \<le> length packet"
  using assms
  by (clarsimp simp: write_ip_header_def bind_eq_Some_conv Let_def dest!: copy_at_fitsD set_at_fitsD)

lemma ip_header_ones_sum:
  fixes src dst tot
  defines "h \<equiv> ip_header_bytes src dst tot"
  shows "ones_sum (inet_sum (h (calculate_ip_checksum (h 0)))) = 65535"
proof -
  have "inet_sum (h (calculate_ip_checksum (h 0)))
      = inet_sum (h 0) + (65535 - ones_sum (inet_sum (h 0)))"
    by (simp add: h_def inet_sum_ip_header [of _ _ _ "calculate_ip_checksum _"] unat_ip_checksum)
  then show ?thesis using checksum_cancels [OF ip_header_pos] by (simp add: h_def)
qed

text \<open>
  C4. The IPv4 header \<^verbatim>\<open>write_ip_header\<close> produces passes the receiver's test of RFC 791 and
  RFC 1071: the ones' complement sum of its ten 16-bit words, checksum field included, is
  \<open>0xFFFF\<close>. The bytes after the header are untouched.
\<close>

theorem ip_header_checksum_valid:
  assumes "write_ip_header packet src dst n = Some q"
  shows "ones_sum (inet_sum (take 20 q)) = 65535 \<and> drop 20 q = drop 20 packet"
  using assms write_ip_header_eq [OF write_ip_header_long [OF assms], of src dst n]
    ip_header_ones_sum [of src dst "of_nat (20 + unat n)"] by auto

theorem ip_header_checksum_valid_witness:
  "\<exists>q. write_ip_header (replicate 21 7) (Ipv4Addr 10 0 0 1) (Ipv4Addr 10 0 0 2) 9 = Some q \<and>
     ones_sum (inet_sum (take 20 q)) = 65535 \<and> drop 20 q = [7]"
proof -
  have "\<exists>q. write_ip_header (replicate 21 7) (Ipv4Addr 10 0 0 1) (Ipv4Addr 10 0 0 2) 9 = Some q"
    by (simp add: write_ip_header_eq)
  then obtain q where
    q: "write_ip_header (replicate 21 7) (Ipv4Addr 10 0 0 1) (Ipv4Addr 10 0 0 2) 9 = Some q" ..
  have "drop 20 (replicate 21 7) = [7 :: u8]" by (simp add: numeral_eq_Suc)
  with ip_header_checksum_valid [OF q] q show ?thesis by auto
qed

section \<open>The UDP header\<close>

definition zero_csum :: "u8 list \<Rightarrow> u8 list" where
  "zero_csum xs = xs[6 := 0, 7 := 0]"

lemma length_zero_csum [simp]: "length (zero_csum xs) = length xs"
  by (simp add: zero_csum_def)

lemma be_word_zero_csum:
  assumes "8 \<le> length xs" "i < length xs div 2"
  shows "be_word (zero_csum xs) i = (if i = 3 then 0 else be_word xs i)"
proof (cases "i = 3")
  case True
  then show ?thesis using assms by (simp add: be_word_def zero_csum_def nth_list_update)
next
  case False
  then have "i * 2 \<noteq> 6" "i * 2 \<noteq> 7" "i * 2 + 1 \<noteq> 6" "i * 2 + 1 \<noteq> 7" by presburger+
  then show ?thesis by (simp add: be_word_def zero_csum_def)
qed

lemma foldl_skip_csum:
  assumes "8 \<le> length xs"
  shows "foldl (\<lambda>s i. if i = 3 then s else s + be_word xs i) a [0..<length xs div 2]
       = a + foldl (\<lambda>s i. s + be_word (zero_csum xs) i) 0 [0..<length xs div 2]"
proof -
  have "foldl (\<lambda>s i. if i = 3 then s else s + be_word xs i) a [0..<length xs div 2]
      = foldl (\<lambda>s i. s + be_word (zero_csum xs) i) a [0..<length xs div 2]"
    by (rule foldl_cong) (auto simp: be_word_zero_csum [OF assms])
  then show ?thesis by (simp only: foldl_plus_word [of _ a])
qed

definition pseudo_sum :: "ipv4_addr \<Rightarrow> ipv4_addr \<Rightarrow> nat \<Rightarrow> nat" where
  "pseudo_sum src dst udp_len = inet_sum (octets src @ octets dst) + 17 + udp_len"

lemma pseudo_header_sum_nat: "pseudo_header_sum src dst n = of_nat (pseudo_sum src dst n)"
proof -
  have w: "be_word xs i = of_nat (256 * unat (xs ! (i * 2)) + unat (xs ! (i * 2 + 1)))" for xs i
    by (metis unat_be_word of_nat_unat ucast_id)
  show ?thesis
    by (cases src; cases dst) (simp add: pseudo_header_sum_def pseudo_sum_def w)
qed

lemma calculate_udp_checksum_eq:
  assumes "8 \<le> length xs"
  shows "calculate_udp_checksum xs src dst =
    NOT (ucast (fold_carry (of_nat (pseudo_sum src dst (length xs) + inet_sum (zero_csum xs)))))"
proof -
  have tail: "length xs mod 2 = 1 \<Longrightarrow> zero_csum xs ! (length xs - 1) = xs ! (length xs - 1)"
  proof -
    assume "length xs mod 2 = 1"
    then have "length xs - 1 \<noteq> 6" "length xs - 1 \<noteq> 7" using assms by presburger+
    then show ?thesis by (simp add: zero_csum_def)
  qed
  have "(let sum = pseudo_header_sum src dst (length xs);
          sum = foldl (\<lambda>s i. if i * 2 = 6 then s else s + be_word xs i) sum [0..<length xs div 2]
     in if length xs mod 2 = 1 then sum + push_bit 8 (ucast (xs ! (length xs - 1))) else sum)
   = pseudo_header_sum src dst (length xs) + sum_words (zero_csum xs)"
    using tail by (simp add: Let_def foldl_skip_csum [OF assms] sum_words_def add.assoc length_zero_csum)
  then show ?thesis
    by (simp add: calculate_udp_checksum_def Let_def pseudo_header_sum_nat sum_words_inet)
qed


definition udp_header_bytes :: "u16 \<Rightarrow> u16 \<Rightarrow> u16 \<Rightarrow> u16 \<Rightarrow> u8 list" where
  "udp_header_bytes sp dp len csum =
     u16_to_be_bytes sp @ u16_to_be_bytes dp @ u16_to_be_bytes len @ u16_to_be_bytes csum"

lemma length_udp_header_bytes [simp]: "length (udp_header_bytes sp dp len csum) = 8"
  by (simp add: udp_header_bytes_def)

lemma write_udp_header_eq:
  assumes "8 \<le> length p" and "csum \<Longrightarrow> 8 + unat n \<le> length p"
  shows "write_udp_header p src sp dst dp n csum =
    (let hdr = udp_header_bytes sp dp (of_nat (8 + unat n)); rest = drop 8 p in
     Some (hdr (if csum then calculate_udp_checksum (take (8 + unat n) (hdr 0 @ rest)) src dst else 0)
           @ rest))"
proof -
  obtain a0 a1 a2 a3 a4 a5 a6 a7 r where
    p: "p = [a0, a1, a2, a3, a4, a5, a6, a7] @ r"
    using assms by (auto simp: numeral_eq_Suc Suc_le_length_iff)
  have "take (8 + k) (a # b # c # d # e # f # g # h # xs) = a # b # c # d # e # f # g # h # take k xs"
    for k and a b c d e f g h :: u8 and xs by (simp add: numeral_eq_Suc)
  moreover have "csum \<Longrightarrow> unat n \<le> length r" using assms(2) p by simp
  ultimately show ?thesis
    by (cases csum) (simp_all add: write_udp_header_def udp_header_bytes_def p copy_at_def subslice_def
        u16_to_be_bytes_def UDP_HEADER_SIZE_def Let_def)
qed

lemma write_udp_header_long:
  assumes "write_udp_header p src sp dst dp n csum = Some q"
  shows "8 \<le> length p" and "csum \<Longrightarrow> 8 + unat n \<le> length p"
proof -
  show "8 \<le> length p"
    using assms
    by (cases csum) (clarsimp simp: write_udp_header_def bind_eq_Some_conv Let_def dest!: copy_at_fitsD)+
  assume csum
  then show "8 + unat n \<le> length p"
    using assms
    by (clarsimp simp: write_udp_header_def bind_eq_Some_conv Let_def subslice_def UDP_HEADER_SIZE_def
        dest!: copy_at_fitsD split: if_splits)
qed

lemma zero_csum_udp_header: "zero_csum (udp_header_bytes sp dp len c @ xs) = udp_header_bytes sp dp len 0 @ xs"
  by (simp add: zero_csum_def udp_header_bytes_def u16_to_be_bytes_def)

lemma inet_sum_udp: "inet_sum (udp_header_bytes sp dp len c @ xs) = unat c + inet_sum (udp_header_bytes sp dp len 0 @ xs)"
  by (simp add: udp_header_bytes_def inet_sum_u16 append_assoc)

text \<open>
  C5. With checksumming on, the UDP datagram \<^verbatim>\<open>write_udp_header\<close> leaves behind passes the
  receiver's test of RFC 768: the ones' complement sum over the pseudo header and the whole
  datagram, checksum field included, is \<open>0xFFFF\<close>. The 32-bit accumulator never overflows for
  any payload length a \<^verbatim>\<open>u16\<close> can give.
\<close>

theorem udp_checksum_valid:
  assumes "write_udp_header p src sp dst dp n True = Some q"
  shows "ones_sum (pseudo_sum src dst (8 + unat n) + inet_sum (take (8 + unat n) q)) = 65535"
proof -
  note len = write_udp_header_long [OF assms]
  let ?h = "udp_header_bytes sp dp (of_nat (8 + unat n))" and ?r = "take (unat n) (drop 8 p)"
  let ?S = "pseudo_sum src dst (8 + unat n) + inet_sum (?h 0 @ ?r)"
  have dg: "take (8 + unat n) (?h 0 @ drop 8 p) = ?h 0 @ ?r" by simp
  have lr: "length (?h 0 @ ?r) = 8 + unat n" using len by simp
  define c where "c = calculate_udp_checksum (?h 0 @ ?r) src dst"
  have q: "take (8 + unat n) q = ?h c @ ?r"
  proof -
    have "q = ?h c @ drop 8 p"
      using assms write_udp_header_eq [OF len(1), of True n src sp dst dp] len(2) dg
      by (simp add: Let_def c_def)
    then show ?thesis by simp
  qed
  have "unat n \<le> 65535" using unat_less_exp [of n] by simp
  then have "inet_sum (?h 0 @ ?r) \<le> 65535 * 32772"
    using inet_sum_bound [of "?h 0 @ ?r"] lr by simp
  moreover have "pseudo_sum src dst (8 + unat n) \<le> 65535 * 6"
    using inet_sum_bound [of "octets src @ octets dst"] \<open>unat n \<le> 65535\<close> by (simp add: pseudo_sum_def)
  ultimately have "?S < 2 ^ LENGTH(32)" by simp
  then have "unat (of_nat ?S :: u32) = ?S" by (rule unat_of_nat_small)
  then have "unat c = 65535 - ones_sum ?S"
    using lr by (simp add: c_def calculate_udp_checksum_eq unat_checksum zero_csum_udp_header)
  then have "pseudo_sum src dst (8 + unat n) + inet_sum (take (8 + unat n) q) = ?S + (65535 - ones_sum ?S)"
    by (simp add: q inet_sum_udp [of _ _ _ c])
  moreover have "0 < ?S" by (simp add: pseudo_sum_def)
  ultimately show ?thesis using checksum_cancels [of ?S] by (simp only:)
qed

theorem udp_checksum_valid_witness:
  "\<exists>q. write_udp_header (replicate 11 3) (Ipv4Addr 10 0 0 1) 5 (Ipv4Addr 10 0 0 2) 6 3 True = Some q \<and>
     ones_sum (pseudo_sum (Ipv4Addr 10 0 0 1) (Ipv4Addr 10 0 0 2) 11 + inet_sum (take 11 q)) = 65535"
proof -
  have "\<exists>q. write_udp_header (replicate 11 3) (Ipv4Addr 10 0 0 1) 5 (Ipv4Addr 10 0 0 2) 6 3 True = Some q"
    by (simp add: write_udp_header_eq Let_def)
  then obtain q where
    q: "write_udp_header (replicate 11 3) (Ipv4Addr 10 0 0 1) 5 (Ipv4Addr 10 0 0 2) 6 3 True = Some q" ..
  from udp_checksum_valid [OF q] q show ?thesis by auto
qed

section \<open>All three headers\<close>

text \<open>
  \<open>on_suffix n f p\<close> runs \<open>f\<close> on the mutable slice \<^verbatim>\<open>&mut p[n..]\<close>. The two transmitting
  loops write the three headers the same way: Ethernet at 0, IP at 14, UDP at 34, with
  \<^verbatim>\<open>(UDP_HEADER_SIZE + len) as u16\<close> and \<^verbatim>\<open>len as u16\<close> truncating the lengths.
\<close>

definition on_suffix :: "nat \<Rightarrow> ('a list \<Rightarrow> 'a list option) \<Rightarrow> 'a list \<Rightarrow> 'a list option" where
  "on_suffix n f p = (if n \<le> length p then map_option ((@) (take n p)) (f (drop n p)) else None)"

definition write_packet_headers ::
  "mac_address \<Rightarrow> mac_address \<Rightarrow> ipv4_addr \<Rightarrow> ipv4_addr \<Rightarrow> u16 \<Rightarrow> u16 \<Rightarrow> nat
     \<Rightarrow> u8 list \<Rightarrow> u8 list option"
where
  "write_packet_headers src_mac dst_mac src_ip dst_ip src_port dst_port len packet = do {
     p \<leftarrow> write_eth_header packet src_mac dst_mac;
     p \<leftarrow> on_suffix ETH_HEADER_SIZE
           (\<lambda>s. write_ip_header s src_ip dst_ip (of_nat (UDP_HEADER_SIZE + len))) p;
     on_suffix (ETH_HEADER_SIZE + IP_HEADER_SIZE)
       (\<lambda>s. write_udp_header s src_ip src_port dst_ip dst_port (of_nat len) False) p
   }"

definition eth_header_bytes :: "mac_address \<Rightarrow> mac_address \<Rightarrow> u8 list" where
  "eth_header_bytes src_mac dst_mac =
     as_bytes dst_mac @ as_bytes src_mac @ u16_to_be_bytes ETH_P_IP"

lemma length_eth_header_bytes [simp]: "length (eth_header_bytes s d) = 14"
  by (simp add: eth_header_bytes_def)

lemma write_eth_header_eq:
  assumes "14 \<le> length p"
  shows "write_eth_header p s d = Some (eth_header_bytes s d @ drop 14 p)"
proof -
  obtain a0 a1 a2 a3 a4 a5 a6 a7 a8 a9 a10 a11 a12 a13 r where
    p: "p = [a0, a1, a2, a3, a4, a5, a6, a7, a8, a9, a10, a11, a12, a13] @ r"
    using assms by (auto simp: numeral_eq_Suc Suc_le_length_iff)
  show ?thesis
    by (cases s; cases d)
      (simp add: write_eth_header_def eth_header_bytes_def p copy_at_def u16_to_be_bytes_def)
qed

text \<open>The bytes of a packet whose headers have been written.\<close>

definition header_bytes ::
  "mac_address \<Rightarrow> mac_address \<Rightarrow> ipv4_addr \<Rightarrow> ipv4_addr \<Rightarrow> u16 \<Rightarrow> u16 \<Rightarrow> nat \<Rightarrow> u8 list"
where
  "header_bytes src_mac dst_mac src_ip dst_ip src_port dst_port len =
     (let ip = ip_header_bytes src_ip dst_ip (of_nat (20 + unat (of_nat (8 + len) :: u16))) in
      eth_header_bytes src_mac dst_mac @ ip (calculate_ip_checksum (ip 0))
      @ udp_header_bytes src_port dst_port (of_nat (8 + unat (of_nat len :: u16))) 0)"

lemma length_header_bytes [simp]:
  "length (header_bytes src_mac dst_mac src_ip dst_ip src_port dst_port len) = 42"
  by (simp add: header_bytes_def Let_def)

lemma write_packet_headers_eq:
  assumes "42 \<le> length p"
  shows "write_packet_headers sm dm si di sp dp len p =
         Some (header_bytes sm dm si di sp dp len @ drop 42 p)"
proof -
  let ?ip = "ip_header_bytes si di (of_nat (20 + unat (of_nat (8 + len) :: u16)))"
  let ?iph = "?ip (calculate_ip_checksum (?ip 0))"
  let ?p1 = "eth_header_bytes sm dm @ drop 14 p"
  let ?p2 = "eth_header_bytes sm dm @ ?iph @ drop 34 p"
  have 1: "write_eth_header p sm dm = Some ?p1" using assms by (simp add: write_eth_header_eq)
  have 2: "on_suffix 14 (\<lambda>s. write_ip_header s si di (of_nat (8 + len))) ?p1 = Some ?p2"
    using assms by (simp add: on_suffix_def write_ip_header_eq)
  have 3: "on_suffix 34 (\<lambda>s. write_udp_header s si sp di dp (of_nat len) False) ?p2
    = Some (eth_header_bytes sm dm @ ?iph @
        udp_header_bytes sp dp (of_nat (8 + unat (of_nat len :: u16))) 0 @ drop 42 p)"
    using assms by (simp add: on_suffix_def write_udp_header_eq Let_def)
  show ?thesis
    using 1 2 3
    by (simp add: write_packet_headers_def header_sizes header_bytes_def Let_def del: of_nat_add)
qed

lemma write_packet_headers_long:
  assumes "write_packet_headers sm dm si di sp dp len p = Some q"
  shows "42 \<le> length p"
proof -
  have e: "write_eth_header p sm dm = Some p1 \<Longrightarrow> length p1 = length p" for p1
    by (auto simp: write_eth_header_def bind_eq_Some_conv dest!: copy_at_fitsD)
  have i: "write_ip_header t si di m = Some t' \<Longrightarrow> length t' = length t" for t t' m
    using write_ip_header_long write_ip_header_eq by fastforce
  show ?thesis
    using assms e
    by (force simp: write_packet_headers_def bind_eq_Some_conv on_suffix_def header_sizes
        split: if_splits dest!: i write_udp_header_long(1))
qed

text \<open>
  C6. Writing the three headers succeeds exactly on packets of at least 42 bytes, leaves the
  length and every byte from 42 on (the payload) alone, and puts the addresses, the EtherType,
  the protocol, the ports and, for payloads that fit an IPv4 datagram, the two length fields
  where Ethernet, IPv4 and UDP have them; the words of the IP header sum to \<open>0xFFFF\<close> in ones'
  complement, the receiver's test.
\<close>

theorem packet_headers_layout:
  "(write_packet_headers sm dm si di sp dp len p = None \<longleftrightarrow> length p < 42) \<and>
   (\<forall>q. write_packet_headers sm dm si di sp dp len p = Some q \<longrightarrow>
      length q = length p \<and> drop 42 q = drop 42 p \<and>
      take 6 q = as_bytes dm \<and> take 6 (drop 6 q) = as_bytes sm \<and>
      take 2 (drop 12 q) = [0x08, 0x00] \<and> q ! 14 = 0x45 \<and> q ! 22 = 64 \<and> q ! 23 = 17 \<and>
      take 4 (drop 26 q) = octets si \<and> take 4 (drop 30 q) = octets di \<and>
      take 2 (drop 34 q) = u16_to_be_bytes sp \<and> take 2 (drop 36 q) = u16_to_be_bytes dp \<and>
      (len \<le> 65507 \<longrightarrow>
         unat (u16_from_be_bytes (q ! 16) (q ! 17)) = 28 + len \<and>
         unat (u16_from_be_bytes (q ! 38) (q ! 39)) = 8 + len) \<and>
      ones_sum (inet_sum (take 20 (drop 14 q))) = 65535)"
proof (intro conjI allI impI)
  show "write_packet_headers sm dm si di sp dp len p = None \<longleftrightarrow> length p < 42"
    using write_packet_headers_eq write_packet_headers_long by (metis linorder_not_less option.exhaust option.simps(3))
next
  fix q assume q: "write_packet_headers sm dm si di sp dp len p = Some q"
  have long: "42 \<le> length p" by (rule write_packet_headers_long [OF q])
  have eq: "q = header_bytes sm dm si di sp dp len @ drop 42 p"
    using q write_packet_headers_eq [OF long] by simp
  show "length q = length p" "drop 42 q = drop 42 p" using long by (simp_all add: eq)
  obtain m0 m1 m2 m3 m4 m5 where sm: "sm = MacAddress m0 m1 m2 m3 m4 m5" by (cases sm)
  obtain k0 k1 k2 k3 k4 k5 where dm: "dm = MacAddress k0 k1 k2 k3 k4 k5" by (cases dm)
  obtain s0 s1 s2 s3 where si: "si = Ipv4Addr s0 s1 s2 s3" by (cases si)
  obtain d0 d1 d2 d3 where di: "di = Ipv4Addr d0 d1 d2 d3" by (cases di)
  note unf = header_bytes_def eth_header_bytes_def ip_header_bytes_def udp_header_bytes_def
    u16_to_be_bytes_def sm dm si di ETH_P_IP_def Let_def
  show "take 6 q = as_bytes dm" "take 6 (drop 6 q) = as_bytes sm" "take 2 (drop 12 q) = [0x08, 0x00]"
    "q ! 14 = 0x45" "q ! 22 = 64" "q ! 23 = 17" "take 4 (drop 26 q) = octets si"
    "take 4 (drop 30 q) = octets di" "take 2 (drop 34 q) = u16_to_be_bytes sp"
    "take 2 (drop 36 q) = u16_to_be_bytes dp"
    by (simp_all add: eq unf)
  have rt: "u16_from_be_bytes (ucast (drop_bit 8 w)) (ucast w) = w" for w
    by (rule u16_be_bytes_roundtrip) (simp add: u16_to_be_bytes_def)
  assume len: "len \<le> 65507"
  have "u16_from_be_bytes (q ! 16) (q ! 17) = of_nat (20 + unat (of_nat (8 + len) :: u16))"
    "u16_from_be_bytes (q ! 38) (q ! 39) = of_nat (8 + unat (of_nat len :: u16))"
    by (simp_all add: eq unf rt)
  then show "unat (u16_from_be_bytes (q ! 16) (q ! 17)) = 28 + len"
    "unat (u16_from_be_bytes (q ! 38) (q ! 39)) = 8 + len"
    using len by (simp_all add: unat_of_nat_small del: of_nat_add)
next
  fix q assume q: "write_packet_headers sm dm si di sp dp len p = Some q"
  have eq: "q = header_bytes sm dm si di sp dp len @ drop 42 p"
    using q write_packet_headers_eq [OF write_packet_headers_long [OF q]] by simp
  show "ones_sum (inet_sum (take 20 (drop 14 q))) = 65535"
    using ip_header_ones_sum by (simp add: eq header_bytes_def Let_def)
qed

theorem packet_headers_layout_witness:
  "\<exists>q. write_packet_headers (MacAddress 1 2 3 4 5 6) (MacAddress 7 8 9 10 11 12)
        (Ipv4Addr 10 0 0 1) (Ipv4Addr 10 0 0 2) 12345 8001 2 (replicate 44 5) = Some q \<and>
     drop 42 q = [5, 5] \<and> unat (u16_from_be_bytes (q ! 16) (q ! 17)) = 30"
proof -
  let ?w = "write_packet_headers (MacAddress 1 2 3 4 5 6) (MacAddress 7 8 9 10 11 12)
        (Ipv4Addr 10 0 0 1) (Ipv4Addr 10 0 0 2) 12345 8001 2 (replicate 44 5)"
  have "?w \<noteq> None"
    using packet_headers_layout [of _ _ _ _ _ _ 2 "replicate 44 5"] by simp
  then obtain q where q: "?w = Some q" by auto
  with packet_headers_layout [of "MacAddress 1 2 3 4 5 6" "MacAddress 7 8 9 10 11 12"
      "Ipv4Addr 10 0 0 1" "Ipv4Addr 10 0 0 2" 12345 8001 2 "replicate 44 5"]
  have "drop 42 q = drop 42 (replicate 44 5) \<and> unat (u16_from_be_bytes (q ! 16) (q ! 17)) = 30"
    by simp
  then show ?thesis using q by (simp add: numeral_eq_Suc)
qed

end
