(* ===== verification/Tx_Loop.thy ===== *)
theory Tx_Loop
  imports Packet Loop_Common
begin

text \<open>
  \<^verbatim>\<open>src/src/tx_loop.rs\<close>: the loop that takes batches of packets from a channel, writes each into
  a frame and queues it for transmission.

  The channel's receiving end is a list of what \<^verbatim>\<open>try_recv\<close> answers, one answer per iteration.
  The kernel's work on the rings is a list of changes of the shared memory, one for each
  iteration of the two loops that wait for the kernel; a run that outlasts the list has no
  result yet (\<^term>\<open>None\<close>). The counters \<^verbatim>\<open>batched_packets\<close> and \<^verbatim>\<open>chunk_remaining\<close> are natural
  numbers, and a subtraction below zero is a panic.
\<close>

section \<open>State and parameters\<close>

record socket_addr =
  sa_ip :: ip_addr
  sa_port :: u16

type_synonym tx_item = "socket_addr list \<times> u8 list"
type_synonym kernel_step = "xsk_mem \<Rightarrow> xsk_mem"

text \<open>\<open>tx_sendto\<close> is the outcome of the n-th wake-up call.\<close>

record tx_cfg =
  tx_src_mac :: mac_address
  tx_src_ip :: ipv4_addr
  tx_src_port :: u16
  tx_dest_mac :: "mac_address option"
  tx_router :: router
  tx_if_index :: u32
  tx_sendto :: "nat \<Rightarrow> int \<Rightarrow> int + u64"

datatype kick_log = NetworkInterfaceDown | DriverError

record tx_state =
  tl_umem :: slice_umem
  tl_ring :: tx_ring
  tl_completion :: tx_completion_ring
  tl_mem :: xsk_mem
  tl_items :: "tx_item list"
  tl_batched :: nat
  tl_chunk :: nat
  tl_timeouts :: nat
  tl_kicks :: nat
  tl_log :: "kick_log list"
  tl_dropped :: "tx_item list"

type_synonym tx_run = "(tx_state \<times> kernel_step list) io_result option"

abbreviation TX_BATCH_SIZE :: nat where "TX_BATCH_SIZE \<equiv> 64"
abbreviation MAX_TIMEOUTS :: nat where "MAX_TIMEOUTS \<equiv> 500"
abbreviation EAGAIN :: int where "EAGAIN \<equiv> 11"
abbreviation EBUSY :: int where "EBUSY \<equiv> 16"
abbreviation ENETDOWN :: int where "ENETDOWN \<equiv> 100"
abbreviation ENOBUFS :: int where "ENOBUFS \<equiv> 105"

definition PACKET_HEADER_SIZE :: nat where
  "PACKET_HEADER_SIZE = ETH_HEADER_SIZE + IP_HEADER_SIZE + UDP_HEADER_SIZE"

section \<open>Kicking the driver\<close>

definition kick_error :: "failure \<Rightarrow> kick_log list" where
  "kick_error e =
     (case e of
        IoErr (LastOsError errno) \<Rightarrow>
          if errno \<in> {EBUSY, ENOBUFS, EAGAIN} then []
          else if errno = ENETDOWN then [NetworkInterfaceDown] else [DriverError]
      | _ \<Rightarrow> [DriverError])"

definition kick :: "tx_cfg \<Rightarrow> tx_state \<Rightarrow> tx_state" where
  "kick cfg st =
     (if \<not> tx_needs_wakeup (xm_tx (tl_mem st)) then st
      else
        let st' = st\<lparr>tl_kicks := tl_kicks st + 1\<rparr> in
        case tx_wake (tx_sendto cfg (tl_kicks st)) (tl_ring st) of
          Inl e \<Rightarrow> st'\<lparr>tl_log := tl_log st' @ kick_error e\<rparr>
        | Inr _ \<Rightarrow> st')"

definition tx_commit_ring :: "tx_state \<Rightarrow> tx_state" where
  "tx_commit_ring st = st\<lparr>tl_mem := (tl_mem st)\<lparr>xm_tx := tx_commit (tl_ring st) (xm_tx (tl_mem st))\<rparr>\<rparr>"

section \<open>Waiting for space\<close>

definition tx_release_completed :: "tx_state \<Rightarrow> tx_state" where
  "tx_release_completed st =
     (case drain_completion (tl_umem st) (tl_completion st) (xm_completion (tl_mem st)) of
        (um, completion) \<Rightarrow> st\<lparr>tl_umem := um, tl_completion := completion\<rparr>)"

definition tx_sync_completion :: "tx_state \<Rightarrow> tx_state" where
  "tx_sync_completion st =
     (case completion_sync True (tl_completion st) (xm_completion (tl_mem st)) of
        (completion, cm) \<Rightarrow> st\<lparr>tl_completion := completion, tl_mem := (tl_mem st)\<lparr>xm_completion := cm\<rparr>\<rparr>)"

definition tx_sync_ring :: "tx_state \<Rightarrow> tx_state" where
  "tx_sync_ring st =
     (case tx_sync False (tl_ring st) (xm_tx (tl_mem st)) of
        (ring, tm) \<Rightarrow> st\<lparr>tl_ring := ring, tl_mem := (tl_mem st)\<lparr>xm_tx := tm\<rparr>\<rparr>)"

definition tx_has_space :: "tx_state \<Rightarrow> bool" where
  "tx_has_space st \<longleftrightarrow> tx_available (tl_ring st) > 0 \<and> umem_available (tl_umem st) > 0"

fun tx_wait :: "tx_cfg \<Rightarrow> kernel_step list \<Rightarrow> tx_state \<Rightarrow> (tx_state \<times> kernel_step list) option" where
  "tx_wait cfg [] st = None"
| "tx_wait cfg (k # ks) st =
     (let st = tx_release_completed (tx_sync_ring (tx_sync_completion (st\<lparr>tl_mem := k (tl_mem st)\<rparr>))) in
      if tx_has_space st then Some (st, ks) else tx_wait cfg ks (kick cfg st))"

section \<open>One packet\<close>

text \<open>
  The address to send to: the packet's IPv4 destination with the MAC address of the next hop,
  or \<^term>\<open>None\<close> for a packet to skip.
\<close>

definition tx_next_hop :: "tx_cfg \<Rightarrow> socket_addr \<Rightarrow> (ipv4_addr \<times> mac_address option) io_result" where
  "tx_next_hop cfg addr =
     (case sa_ip addr of
        V6 _ \<Rightarrow> Inl (Panic ''IPv6 not supported'')
      | V4 dst_ip \<Rightarrow>
          (case tx_dest_mac cfg of
             Some mac \<Rightarrow> Inr (dst_ip, Some mac)
           | None \<Rightarrow>
               (case router_route (tx_router cfg) (sa_ip addr) of
                  None \<Rightarrow> Inl (Panic ''slice index out of range'')
                | Some (Inl _) \<Rightarrow> Inl (Panic ''called Result::unwrap() on an Err value'')
                | Some (Inr next_hop) \<Rightarrow>
                    Inr (dst_ip, if nh_if_index next_hop \<noteq> tx_if_index cfg \<or> nh_mac_addr next_hop = None
                                 then None else nh_mac_addr next_hop))))"

definition tx_write_packet ::
  "tx_cfg \<Rightarrow> ipv4_addr \<Rightarrow> u16 \<Rightarrow> mac_address \<Rightarrow> u8 list \<Rightarrow> umem_frame \<Rightarrow> slice_umem \<Rightarrow> (umem_frame \<times> slice_umem) io_result"
where
  "tx_write_packet cfg dst_ip dst_port dest_mac payload frame um =
     (let len = length payload; frame = set_len (of_nat (PACKET_HEADER_SIZE + len)) frame in
      case map_frame um frame of
        None \<Rightarrow> Inl (Undefined ''slice outside the frame memory'')
      | Some packet \<Rightarrow>
          (case Option.bind (copy_at PACKET_HEADER_SIZE payload packet)
                  (write_packet_headers (tx_src_mac cfg) dest_mac (tx_src_ip cfg) dst_ip
                     (tx_src_port cfg) dst_port len) of
             None \<Rightarrow> Inl (Panic ''slice index out of range'')
           | Some packet \<Rightarrow>
               (case put_frame frame packet um of
                  None \<Rightarrow> Inl (Undefined ''write outside the frame memory'')
                | Some um \<Rightarrow> Inr (frame, um))))"

definition tx_counted :: "tx_cfg \<Rightarrow> tx_state \<Rightarrow> tx_state io_result" where
  "tx_counted cfg st =
     (if tl_batched st = 0 \<or> tl_chunk st = 0 then Inl (Panic ''attempt to subtract with overflow'')
      else
        let st = st\<lparr>tl_batched := tl_batched st - 1, tl_chunk := tl_chunk st - 1\<rparr> in
        if tl_chunk st = 0
        then Inr (kick cfg (tx_commit_ring (st\<lparr>tl_chunk := min TX_BATCH_SIZE (tl_batched st)\<rparr>)))
        else Inr st)"

definition tx_packet :: "tx_cfg \<Rightarrow> u8 list \<Rightarrow> socket_addr \<Rightarrow> tx_state \<Rightarrow> tx_state io_result" where
  "tx_packet cfg payload addr st =
     (case reserve (tl_umem st) of
        None \<Rightarrow> Inl (Panic ''called Option::unwrap() on a None value'')
      | Some (frame, um) \<Rightarrow>
          rbind (tx_next_hop cfg addr) (\<lambda>(dst_ip, mac).
          case mac of
            None \<Rightarrow>
              if tl_batched st = 0 then Inl (Panic ''attempt to subtract with overflow'')
              else Inr (st\<lparr>tl_batched := tl_batched st - 1, tl_umem := release (fr_offset frame) um\<rparr>)
          | Some dest_mac \<Rightarrow>
              rbind (tx_write_packet cfg dst_ip (sa_port addr) dest_mac payload frame um) (\<lambda>(frame, um).
              case tx_write frame 0 (tl_ring st) (xm_tx (tl_mem st)) of
                (Inl _, _, _) \<Rightarrow> Inl (Panic ''failed to write to ring'')
              | (Inr _, ring, tm) \<Rightarrow>
                  tx_counted cfg (st\<lparr>tl_umem := um, tl_ring := ring, tl_mem := (tl_mem st)\<lparr>xm_tx := tm\<rparr>\<rparr>))))"

section \<open>A batch\<close>

definition tx_addr :: "tx_cfg \<Rightarrow> u8 list \<Rightarrow> socket_addr \<Rightarrow> kernel_step list \<Rightarrow> tx_state \<Rightarrow> tx_run" where
  "tx_addr cfg payload addr ks st =
     (case (if tx_has_space st then Some (st, ks) else tx_wait cfg ks st) of
        None \<Rightarrow> None
      | Some (st, ks) \<Rightarrow> Some (rbind (tx_packet cfg payload addr st) (\<lambda>st. Inr (st, ks))))"

fun tx_addrs :: "tx_cfg \<Rightarrow> u8 list \<Rightarrow> socket_addr list \<Rightarrow> kernel_step list \<Rightarrow> tx_state \<Rightarrow> tx_run" where
  "tx_addrs cfg payload [] ks st = Some (Inr (st, ks))"
| "tx_addrs cfg payload (addr # addrs) ks st =
     (case tx_addr cfg payload addr ks st of
        Some (Inr (st, ks)) \<Rightarrow> tx_addrs cfg payload addrs ks st
      | r \<Rightarrow> r)"

fun tx_items :: "tx_cfg \<Rightarrow> tx_item list \<Rightarrow> kernel_step list \<Rightarrow> tx_state \<Rightarrow> tx_run" where
  "tx_items cfg [] ks st = Some (Inr (st, ks))"
| "tx_items cfg ((addrs, payload) # items) ks st =
     (case tx_addrs cfg payload addrs ks st of
        Some (Inr (st, ks)) \<Rightarrow>
          tx_items cfg items ks (st\<lparr>tl_dropped := tl_dropped st @ [(addrs, payload)]\<rparr>)
      | r \<Rightarrow> r)"

definition tx_batch :: "bool \<Rightarrow> tx_cfg \<Rightarrow> kernel_step list \<Rightarrow> tx_state \<Rightarrow> tx_run" where
  "tx_batch dbg cfg ks st =
     (case tx_items cfg (tl_items st) ks
             (st\<lparr>tl_chunk := min TX_BATCH_SIZE (tl_batched st), tl_items := []\<rparr>) of
        Some (Inr (st, ks)) \<Rightarrow>
          if dbg \<and> tl_batched st \<noteq> 0 then Some (Inl (Panic ''assertion left == right failed''))
          else Some (Inr (st, ks))
      | r \<Rightarrow> r)"

section \<open>The main loop and the drain\<close>

datatype tx_recv = Received tx_item | Empty | Disconnected

fun tx_main :: "bool \<Rightarrow> tx_cfg \<Rightarrow> tx_recv list \<Rightarrow> kernel_step list \<Rightarrow> tx_state \<Rightarrow> tx_run" where
  "tx_main dbg cfg [] ks st = None"
| "tx_main dbg cfg (r # rs) ks st =
     (case r of
        Received (addrs, payload) \<Rightarrow>
          let st = st\<lparr>tl_batched := tl_batched st + length addrs,
                      tl_items := tl_items st @ [(addrs, payload)], tl_timeouts := 0\<rparr> in
          if tl_batched st < TX_BATCH_SIZE then tx_main dbg cfg rs ks st
          else (case tx_batch dbg cfg ks st of
                  Some (Inr (st, ks)) \<Rightarrow> tx_main dbg cfg rs ks st | run \<Rightarrow> run)
      | Empty \<Rightarrow>
          let st = (if tl_timeouts st < MAX_TIMEOUTS then st\<lparr>tl_timeouts := tl_timeouts st + 1\<rparr>
                    else kick cfg (tx_commit_ring (st\<lparr>tl_timeouts := 0\<rparr>))) in
          (case tx_batch dbg cfg ks st of
             Some (Inr (st, ks)) \<Rightarrow> tx_main dbg cfg rs ks st | run \<Rightarrow> run)
      | Disconnected \<Rightarrow>
          if tl_batched st = 0 then Some (Inr (st, ks))
          else (case tx_batch dbg cfg ks st of
                  Some (Inr (st, ks)) \<Rightarrow> tx_main dbg cfg rs ks st | run \<Rightarrow> run))"

definition tx_drained :: "nat \<Rightarrow> tx_state \<Rightarrow> bool" where
  "tx_drained umem_tx_capacity st \<longleftrightarrow>
     \<not> (umem_available (tl_umem st) < umem_tx_capacity \<or> tx_available (tl_ring st) < tx_capacity (tl_ring st))"

fun tx_drain :: "tx_cfg \<Rightarrow> nat \<Rightarrow> kernel_step list \<Rightarrow> tx_state \<Rightarrow> tx_state option" where
  "tx_drain cfg cap [] st = (if tx_drained cap st then Some st else None)"
| "tx_drain cfg cap (k # ks) st =
     (if tx_drained cap st then Some st
      else tx_drain cfg cap ks
        (kick cfg (tx_sync_ring (tx_release_completed (tx_sync_completion (st\<lparr>tl_mem := k (tl_mem st)\<rparr>))))))"

definition tx_finish :: "tx_cfg \<Rightarrow> nat \<Rightarrow> tx_run \<Rightarrow> tx_state io_result option" where
  "tx_finish cfg cap run =
     (case run of
        None \<Rightarrow> None
      | Some (Inl f) \<Rightarrow> Some (Inl f)
      | Some (Inr (st, ks)) \<Rightarrow>
          if tl_batched st \<noteq> 0 then Some (Inl (Panic ''assertion left == right failed''))
          else map_option Inr (tx_drain cfg cap ks st))"

section \<open>Start-up\<close>

definition tx_open ::
  "loop_sys \<Rightarrow> device_sys \<Rightarrow> xsk_sys \<Rightarrow> bool \<Rightarrow> usize \<Rightarrow> network_device \<Rightarrow> u64 \<Rightarrow> bool
     \<Rightarrow> mac_address option \<Rightarrow> ipv4_addr option \<Rightarrow> (mac_address \<times> ipv4_addr \<times> tx_state) io_result" where
  "tx_open sys dsys xsys dbg cpu_id dev queue_id zero_copy src_mac src_ip =
     rbind (unwrap (set_cpu_affinity sys [cpu_id])) (\<lambda>_.
     rbind (case src_mac of Some mac \<Rightarrow> Inr mac | None \<Rightarrow> unwrap (device_mac_addr dsys dev)) (\<lambda>src_mac.
     rbind (case src_ip of Some ip \<Rightarrow> Inr ip | None \<Rightarrow> unwrap (device_ipv4_addr dsys dev)) (\<lambda>src_ip.
     rbind (unwrap (open_queue dsys dev queue_id)) (\<lambda>queue.
     let sizes = (case dq_ring_sizes queue of Some s \<Rightarrow> s | None \<Rightarrow> ring_sizes_default);
         rx_size = rs_rx sizes; tx_size = rs_tx sizes in
     rbind (if dbg \<and> add_overflows rx_size tx_size then Inl (Panic ''attempt to add with overflow'')
            else Inr (rx_size + tx_size)) (\<lambda>frame_count.
     rbind (frames_umem sys dbg frame_count) (\<lambda>(umem_ptr, um).
     rbind (raise_privileges sys) (\<lambda>_.
     rbind (if dbg \<and> mul_overflows tx_size 2 then Inl (Panic ''attempt to multiply with overflow'')
            else Inr (tx_size * 2)) (\<lambda>completion_size.
     case socket_tx xsys dbg umem_ptr queue um zero_copy completion_size tx_size of
       Inl (IoErr _) \<Rightarrow> Inl (Panic ''failed to create AF_XDP socket'')
     | Inl f \<Rightarrow> Inl f
     | Inr (socket, tx, mem) \<Rightarrow>
         (case tx_ring tx of
            None \<Rightarrow> Inl (Panic ''called Option::unwrap() on a None value'')
          | Some ring \<Rightarrow>
              Inr (src_mac, src_ip,
                \<lparr>tl_umem = sk_umem socket, tl_ring = ring, tl_completion = tx_completion tx, tl_mem = mem,
                 tl_items = [], tl_batched = 0, tl_chunk = 0, tl_timeouts = 0, tl_kicks = 0, tl_log = [],
                 tl_dropped = []\<rparr>))))))))))"

text \<open>The whole of \<^verbatim>\<open>tx_loop\<close>; the outer \<^term>\<open>None\<close> of the router is a query that blocks.\<close>

definition tx_loop ::
  "loop_sys \<Rightarrow> device_sys \<Rightarrow> xsk_sys \<Rightarrow> netlink_sys \<Rightarrow> netlink_sys \<Rightarrow> (nat \<Rightarrow> int \<Rightarrow> int + u64) \<Rightarrow> bool \<Rightarrow> usize
     \<Rightarrow> network_device \<Rightarrow> u64 \<Rightarrow> bool \<Rightarrow> mac_address option \<Rightarrow> ipv4_addr option \<Rightarrow> u16 \<Rightarrow> mac_address option
     \<Rightarrow> tx_recv list \<Rightarrow> kernel_step list \<Rightarrow> tx_state io_result option" where
  "tx_loop sys dsys xsys neigh_sys route_sys sendto dbg cpu_id dev queue_id zero_copy src_mac src_ip src_port
     dest_mac receiver ks =
     (case tx_open sys dsys xsys dbg cpu_id dev queue_id zero_copy src_mac src_ip of
        Inl f \<Rightarrow> Some (Inl f)
      | Inr (src_mac, src_ip, st) \<Rightarrow>
          (case router_new dbg neigh_sys route_sys of
             None \<Rightarrow> None
           | Some r \<Rightarrow>
               (case rbind (unwrap r) (\<lambda>router.
                       rbind (raise_caps (ls_caps_drop sys) [CAP_NET_ADMIN, CAP_NET_RAW]) (\<lambda>_. Inr router)) of
                  Inl f \<Rightarrow> Some (Inl f)
                | Inr router \<Rightarrow>
                    let cfg = \<lparr>tx_src_mac = src_mac, tx_src_ip = src_ip, tx_src_port = src_port,
                               tx_dest_mac = dest_mac, tx_router = router, tx_if_index = nd_if_index dev,
                               tx_sendto = sendto\<rparr> in
                    tx_finish cfg (umem_available (tl_umem st)) (tx_main dbg cfg receiver ks st))))"

section \<open>The kernel's side of the rings\<close>









section \<open>Nothing goes wrong in a batch\<close>

text \<open>
  What the allocator needs for every frame it hands out to lie in the memory; unlike the
  allocator's full invariant it does not depend on the kernel completing each frame once.
\<close>

definition sound :: "slice_umem \<Rightarrow> bool" where
  "sound um \<longleftrightarrow> frame_size um \<noteq> 0 \<and> length (buffer um) < 2 ^ 63 \<and>
     unat (capacity um) = length (buffer um) div unat (frame_size um) \<and>
     (\<forall>i\<in>set (available_frames um). i < capacity um)"

lemma sound_frame:
  assumes "sound um" "i < capacity um"
  shows "frame_index um (frame_at um i) = i" "unat (frame_at um i) + unat (frame_size um) \<le> length (buffer um)"
proof -
  have inv: "umem_inv (um\<lparr>available_frames := []\<rparr>)" using assms(1) by (simp add: sound_def umem_inv_def)
  show "frame_index um (frame_at um i) = i"
    using frame_at_index [OF inv, of i] assms(2) by (simp add: frame_index_def frame_at_def)
  show "unat (frame_at um i) + unat (frame_size um) \<le> length (buffer um)"
    using frame_fits [OF inv, of i] unat_frame_at [OF inv, of i] assms(2) by (simp add: frame_at_def)
qed












lemma kick_facts [simp]:
  "tl_umem (kick cfg st) = tl_umem st" "tl_ring (kick cfg st) = tl_ring st"
  "tl_completion (kick cfg st) = tl_completion st" "tl_mem (kick cfg st) = tl_mem st"
  "tl_items (kick cfg st) = tl_items st" "tl_batched (kick cfg st) = tl_batched st"
  "tl_chunk (kick cfg st) = tl_chunk st" "tl_timeouts (kick cfg st) = tl_timeouts st"
  "tl_dropped (kick cfg st) = tl_dropped st"
  by (auto simp: kick_def Let_def split: sum.splits)

lemma tx_commit_ring_facts [simp]:
  "tl_umem (tx_commit_ring st) = tl_umem st" "tl_ring (tx_commit_ring st) = tl_ring st"
  "tl_completion (tx_commit_ring st) = tl_completion st" "tl_items (tx_commit_ring st) = tl_items st"
  "tl_batched (tx_commit_ring st) = tl_batched st" "tl_chunk (tx_commit_ring st) = tl_chunk st"
  "tl_dropped (tx_commit_ring st) = tl_dropped st"
  by (simp_all add: tx_commit_ring_def)






text \<open>The bytes of a packet, and its descriptor.\<close>

definition tx_bytes :: "tx_cfg \<Rightarrow> ipv4_addr \<Rightarrow> u16 \<Rightarrow> mac_address \<Rightarrow> u8 list \<Rightarrow> u8 list" where
  "tx_bytes cfg ip port mac payload =
     header_bytes (tx_src_mac cfg) mac (tx_src_ip cfg) ip (tx_src_port cfg) port (length payload) @ payload"


lemma PACKET_HEADER_SIZE_eq: "PACKET_HEADER_SIZE = 42"
  by (simp add: PACKET_HEADER_SIZE_def header_sizes)


lemma tx_write_packet_fits:
  assumes "unat (fr_offset f) + (42 + length payload) \<le> length (buffer um)" "length (buffer um) < 2 ^ 63"
  obtains um' where "tx_write_packet cfg ip port mac payload f um = Inr (set_len (of_nat (42 + length payload)) f, um')"
    "put_frame (set_len (of_nat (42 + length payload)) f) (tx_bytes cfg ip port mac payload) um = Some um'"
    "length (tx_bytes cfg ip port mac payload) = unat (fr_len (set_len (of_nat (42 + length payload)) f))"
proof -
  let ?g = "set_len (of_nat (42 + length payload)) f" and ?b = "tx_bytes cfg ip port mac payload"
  have "unat (of_nat (42 + length payload) :: u64) = 42 + length payload"
    by (rule unat_of_nat_small) (use assms in simp)
  then have l: "unat (fr_len ?g) = 42 + length payload" by (simp add: set_len_def del: of_nat_add)
  obtain p where p: "map_frame um ?g = Some p" "length p = 42 + length payload"
    using assms l by (auto simp: map_frame_def subslice_def set_len_def)
  then obtain q where q: "copy_at 42 payload p = Some q" "drop 42 q = payload" "length q = length p"
    by (auto simp: copy_at_def)
  have h: "write_packet_headers (tx_src_mac cfg) mac (tx_src_ip cfg) ip (tx_src_port cfg) port (length payload) q = Some ?b"
    using q p(2) by (simp add: write_packet_headers_eq tx_bytes_def)
  have lb: "length ?b = unat (fr_len ?g)" using l by (simp add: tx_bytes_def)
  obtain um' where um': "put_frame ?g ?b um = Some um'"
    using put_frame_fits [of ?g ?b um] assms lb l by (auto simp: set_len_def)
  have "tx_write_packet cfg ip port mac payload f um = Inr (?g, um')"
    by (simp add: tx_write_packet_def Let_def PACKET_HEADER_SIZE_eq p q h um' del: of_nat_add)
  then show thesis using that um' lb by blast
qed


































section \<open>What a batch sends\<close>











definition all_published :: "tx_state \<Rightarrow> bool" where
  "all_published st \<longleftrightarrow> rm_producer (xm_tx (tl_mem st)) = rp_cached_producer (tr_producer (tl_ring st))"







lemma inv_sound: "umem_inv um \<Longrightarrow> sound um"
  by (simp add: umem_inv_def sound_def)














section \<open>The drain\<close>

definition drain_step :: "tx_cfg \<Rightarrow> kernel_step \<Rightarrow> tx_state \<Rightarrow> tx_state" where
  "drain_step cfg k st =
     kick cfg (tx_sync_ring (tx_release_completed (tx_sync_completion (st\<lparr>tl_mem := k (tl_mem st)\<rparr>))))"

lemma drain_step_facts:
  "tl_umem (drain_step cfg k st) = fold release (ring_pending (tc_size (tl_completion st))
     ((tc_consumer (tl_completion st))\<lparr>rc_cached_producer := rm_producer (xm_completion (k (tl_mem st)))\<rparr>)
     (xm_completion (k (tl_mem st)))) (tl_umem st)"
  "tl_ring (drain_step cfg k st) = (tl_ring st)\<lparr>tr_producer :=
     (tr_producer (tl_ring st))\<lparr>rp_cached_consumer := rm_consumer (xm_tx (k (tl_mem st)))\<rparr>\<rparr>"
  "xm_tx (tl_mem (drain_step cfg k st)) = xm_tx (k (tl_mem st))"
  by (simp_all add: drain_step_def tx_release_completed_def tx_sync_ring_def tx_sync_completion_def tx_sync_def
      completion_sync_def consumer_sync_def consumer_commit_def producer_sync_def drain_completion_eq Let_def
      ring_pending_def)

lemma tx_drain_Cons:
  "tx_drain cfg cap (k # ks) st = (if tx_drained cap st then Some st else tx_drain cfg cap ks (drain_step cfg k st))"
  by (simp add: drain_step_def)

lemma tx_drain_drained: "tx_drained cap st \<Longrightarrow> tx_drain cfg cap ks st = Some st"
  by (cases ks) simp_all

lemma length_fold_release: "length (available_frames (fold release offs um)) = length (available_frames um) + length offs"
  by (induction offs arbitrary: um) (simp_all add: release_def)

text \<open>The completed frames the kernel has published after a step.\<close>

definition newly_completed :: "kernel_step \<Rightarrow> tx_state \<Rightarrow> frame_offset list" where
  "newly_completed k st = ring_pending (tc_size (tl_completion st))
     ((tc_consumer (tl_completion st))\<lparr>rc_cached_producer := rm_producer (xm_completion (k (tl_mem st)))\<rparr>)
     (xm_completion (k (tl_mem st)))"

text \<open>
  C27. The drain ends once the kernel is done: if, after some steps of the kernel, one more step
  has consumed everything queued and completed the frames still missing, the drain has returned
  by then, and all frames are back.
\<close>

theorem tx_drain_ends:
  assumes "rp_size (tr_producer (tl_ring st)) = tr_size (tl_ring st)"
    and "st1 = fold (drain_step cfg) ks st"
    and "cap \<le> umem_available (tl_umem st1) + length (newly_completed k st1)"
    and "rm_consumer (xm_tx (k (tl_mem st1))) = rp_cached_producer (tr_producer (tl_ring st1))"
  shows "\<exists>st'. tx_drain cfg cap (ks @ k # ks') st = Some st' \<and> cap \<le> umem_available (tl_umem st')"
  using assms
proof (induction ks arbitrary: st)
  case Nil
  have "tx_drained cap (drain_step cfg k st)"
    using Nil.prems
    by (simp add: tx_drained_def drain_step_facts newly_completed_def umem_available_def length_fold_release
        tx_available_def tx_capacity_def producer_available_def saturating_sub_def)
  then show ?case
    by (auto simp: tx_drain_Cons tx_drain_drained simp del: tx_drain.simps) (auto simp: tx_drained_def)
next
  case (Cons j ks)
  show ?case
  proof (cases "tx_drained cap st")
    case True
    then show ?thesis by (auto simp: tx_drain_drained) (auto simp: tx_drained_def)
  next
    case False
    have "\<exists>st'. tx_drain cfg cap (ks @ k # ks') (drain_step cfg j st) = Some st' \<and> cap \<le> umem_available (tl_umem st')"
      by (rule Cons.IH) (use Cons.prems in \<open>simp_all add: drain_step_facts\<close>)
    then show ?thesis using False by (simp add: tx_drain_Cons del: tx_drain.simps)
  qed
qed

text \<open>A kernel that consumes only what is published, in order.\<close>

definition consumes_published :: "kernel_step \<Rightarrow> bool" where
  "consumes_published k \<longleftrightarrow> (\<forall>m. rm_producer (xm_tx (k m)) = rm_producer (xm_tx m) \<and>
     rm_producer (xm_tx m) - rm_consumer (xm_tx (k m)) \<le> rm_producer (xm_tx m) - rm_consumer (xm_tx m))"

lemma not_consumed:
  assumes "unat (P - C) + unat (cp - P) < 2 ^ 32" "cp \<noteq> (P :: u32)"
  shows "cp \<noteq> C"
proof
  assume "cp = C"
  then have "(P - C) + (cp - P) = 0" by simp
  then have "unat (P - C) + unat (cp - P) = 0"
    using assms(1) unat_word_ariths(1) [of "P - C" "cp - P"] by simp
  then show False using assms(2) by (simp add: unat_eq_zero)
qed

lemma not_drained:
  assumes "rp_size (tr_producer (tl_ring st)) = tr_size (tl_ring st)" "tr_size (tl_ring st) \<noteq> 0"
    and "rp_cached_consumer (tr_producer (tl_ring st)) \<noteq> rp_cached_producer (tr_producer (tl_ring st))"
  shows "\<not> tx_drained cap st"
proof -
  define d where "d = rp_cached_producer (tr_producer (tl_ring st)) - rp_cached_consumer (tr_producer (tl_ring st))"
  have "0 < unat d" "0 < unat (tr_size (tl_ring st))" using assms(2,3) by (simp_all add: d_def unat_gt_0)
  then have "unat (saturating_sub (tr_size (tl_ring st)) d) < unat (tr_size (tl_ring st))"
    by (simp add: saturating_sub_def unat_sub linorder_not_less)
  then show ?thesis
    using assms(1) by (simp add: tx_drained_def tx_available_def tx_capacity_def producer_available_def d_def)
qed

text \<open>
  C28. The drain does not end if a packet is queued but not published: the drain never commits
  the ring, so a kernel that consumes only what is published never frees the last slots, and
  however long the drain runs the ring does not become empty.
\<close>

theorem tx_drain_never_ends:
  assumes "rp_size (tr_producer (tl_ring st)) = tr_size (tl_ring st)" "tr_size (tl_ring st) \<noteq> 0"
    and "\<not> all_published st" "cp = rp_cached_producer (tr_producer (tl_ring st))"
    and "rp_cached_consumer (tr_producer (tl_ring st)) \<noteq> cp" "P = rm_producer (xm_tx (tl_mem st))"
    and "unat (P - rm_consumer (xm_tx (tl_mem st))) + unat (cp - P) < 2 ^ 32"
    and "\<forall>k\<in>set ks. consumes_published k"
  shows "tx_drain cfg cap ks st = None"
  using assms
proof (induction ks arbitrary: st)
  case (Cons k ks)
  have nd: "\<not> tx_drained cap st"
    by (rule not_drained) (use Cons.prems(1,2,4,5) in auto)
  have c: "rm_producer (xm_tx (k (tl_mem st))) = P"
    "unat (P - rm_consumer (xm_tx (k (tl_mem st)))) \<le> unat (P - rm_consumer (xm_tx (tl_mem st)))"
    using Cons.prems(6,8) by (auto simp: consumes_published_def word_le_nat_alt)
  have ne: "cp \<noteq> P" using Cons.prems(3,4,6) by (auto simp: all_published_def)
  have lt: "unat (P - rm_consumer (xm_tx (k (tl_mem st)))) + unat (cp - P) < 2 ^ 32"
    using c(2) Cons.prems(7) by linarith
  note nc = not_consumed [OF lt ne]
  have "tx_drain cfg cap ks (drain_step cfg k st) = None"
    by (rule Cons.IH) (use Cons.prems(1,2,4,8) c(1) ne lt nc in \<open>auto simp: drain_step_facts all_published_def\<close>)
  then show ?case using nd by (simp add: tx_drain_Cons del: tx_drain.simps)
next
  case Nil
  then show ?case using not_drained [of st cap] by auto
qed

section \<open>Payloads that do not fit\<close>

text \<open>
  C29. The length of a payload is not checked against the frame: a payload that is longer than a
  frame has room for (but still inside the memory) is accepted, and its tail is written over the
  next frame, which may be queued or in the hands of the kernel.
\<close>

theorem tx_oversized_payload:
  assumes "sound um" "Suc (unat i) < unat (capacity um)" "fr_offset f = frame_at um i"
    and "42 \<le> unat (frame_size um)" "unat (frame_size um) < 42 + length payload"
    and "unat (fr_offset f) + (42 + length payload) \<le> length (buffer um)"
  shows "\<exists>g um'. tx_write_packet cfg ip port mac payload f um = Inr (g, um') \<and>
    buffer um' ! unat (frame_at um (i + 1)) = payload ! (unat (frame_size um) - 42)"
proof -
  have i: "i < capacity um" "i + 1 < capacity um" "unat (i + 1) = Suc (unat i)"
  proof -
    show "i < capacity um" using assms(2) by (simp add: word_less_nat_alt)
    have "Suc (unat i) < 2 ^ 64" using assms(2) unsigned_less [of "capacity um", where ?'a = nat] by simp
    then show "unat (i + 1) = Suc (unat i)" by (simp add: unat_word_ariths)
    then show "i + 1 < capacity um" using assms(2) by (simp add: word_less_nat_alt)
  qed
  have inv: "umem_inv (um\<lparr>available_frames := []\<rparr>)" using assms(1) by (simp add: sound_def umem_inv_def)
  let ?fs = "unat (frame_size um)"
  have off: "unat (frame_at um (i + 1)) = unat (fr_offset f) + ?fs" "unat (frame_at um (i + 1)) + ?fs \<le> length (buffer um)"
    using unat_frame_at [OF inv, of i] unat_frame_at [OF inv, of "i + 1"] i sound_frame(2) [OF assms(1) i(2)]
    by (simp_all add: assms(3) frame_at_def)
  obtain um' where w: "tx_write_packet cfg ip port mac payload f um = Inr (set_len (of_nat (42 + length payload)) f, um')"
    "put_frame (set_len (of_nat (42 + length payload)) f) (tx_bytes cfg ip port mac payload) um = Some um'"
    by (rule tx_write_packet_fits [OF assms(6)]) (use assms(1) that in \<open>auto simp: sound_def\<close>)
  have l: "length (tx_bytes cfg ip port mac payload) = 42 + length payload" by (simp add: tx_bytes_def)
  have "copy_at (unat (fr_offset f)) (tx_bytes cfg ip port mac payload) (buffer um) = Some (buffer um')"
    using w(2) by (auto simp: put_frame_def set_len_def)
  from copy_at_nth [OF this, of "unat (fr_offset f) + ?fs"]
  have "buffer um' ! unat (frame_at um (i + 1)) = tx_bytes cfg ip port mac payload ! ?fs"
    using off assms(4,5) by (simp add: l)
  also have "\<dots> = payload ! (?fs - 42)" using assms(4) by (simp add: tx_bytes_def nth_append)
  finally show ?thesis using w(1) by blast
qed

section \<open>Examples\<close>

text \<open>Two frames of 64 bytes, a ring of two, and a neighbour table that knows only the gateway.\<close>

definition tx_example :: "tx_item list \<Rightarrow> tx_state" where
  "tx_example items =
     (let um = \<lparr>rm_producer = 0, rm_consumer = 0, rm_desc = \<lambda>_. 0, rm_flags = 1\<rparr>;
          dm = \<lparr>rm_producer = 0, rm_consumer = 0,
                rm_desc = \<lambda>_. \<lparr>xd_addr = 0, xd_len = 0, xd_options = 0\<rparr>, rm_flags = 1\<rparr> in
      \<lparr>tl_umem = \<lparr>buffer = replicate 128 0, frame_size = 64, available_frames = [0, 1], capacity = 2\<rparr>,
       tl_ring = \<lparr>tr_producer = producer_new dm 2, tr_size = 2, tr_fd = 3\<rparr>,
       tl_completion = \<lparr>tc_consumer = consumer_new um, tc_size = 4\<rparr>,
       tl_mem = \<lparr>xm_completion = um, xm_fill = um, xm_tx = dm, xm_rx = dm\<rparr>,
       tl_items = items, tl_batched = sum_list (map (\<lambda>item. length (fst item)) items), tl_chunk = 0,
       tl_timeouts = 0, tl_kicks = 0, tl_log = [], tl_dropped = []\<rparr>)"

abbreviation tx_example_cfg :: tx_cfg where
  "tx_example_cfg \<equiv> \<lparr>tx_src_mac = MacAddress 1 2 3 4 5 6, tx_src_ip = Ipv4Addr 192 168 1 2, tx_src_port = 8000,
     tx_dest_mac = None, tx_router = lan_router, tx_if_index = 2, tx_sendto = \<lambda>_ _. Inr 0\<rparr>"



lemma tx_example_facts:
  "owned (tl_umem (tx_example items)) {#}" "sound (tl_umem (tx_example items))"
  "tl_items (tx_example items) = items" "frame_size (tl_umem (tx_example items)) = 64"
  "tl_batched (tx_example items) = sum_list (map (\<lambda>item. length (fst item)) items)"
  "tx_available (tl_ring (tx_example items)) = 2" "umem_available (tl_umem (tx_example items)) = 2"
proof -
  have "{..<2 :: nat} = {0, 1}" by auto
  then have "{i :: u64. i < 2} = {0, 1}" by (simp add: words_below)
  then show o: "owned (tl_umem (tx_example items)) {#}" by (simp add: owned_def tx_example_def Let_def)
  show "sound (tl_umem (tx_example items))" by (rule inv_sound [OF owned_inv [OF o]])
qed (simp_all add: tx_example_def Let_def umem_available_def tx_available_def producer_available_def
    producer_new_def saturating_sub_def)












text \<open>One packet queued: the kernel consumes it and completes its frame, or it was not published.\<close>

definition tx_queued_example :: "u32 \<Rightarrow> tx_state" where
  "tx_queued_example published =
     (let st = tx_example [] in
      st\<lparr>tl_ring := (tl_ring st)\<lparr>tr_producer := (tr_producer (tl_ring st))\<lparr>rp_cached_producer := 1\<rparr>\<rparr>,
         tl_umem := (tl_umem st)\<lparr>available_frames := [0]\<rparr>,
         tl_mem := (tl_mem st)\<lparr>xm_tx := (xm_tx (tl_mem st))\<lparr>rm_producer := published\<rparr>\<rparr>\<rparr>)"

definition complete_one :: kernel_step where
  "complete_one m =
     m\<lparr>xm_tx := (xm_tx m)\<lparr>rm_consumer := 1\<rparr>,
       xm_completion := (xm_completion m)\<lparr>rm_producer := 1, rm_desc := \<lambda>_. 64\<rparr>\<rparr>"

theorem tx_drain_ends_witness:
  "\<exists>st'. tx_drain tx_example_cfg 2 ([] @ [complete_one]) (tx_queued_example 1) = Some st' \<and>
     2 \<le> umem_available (tl_umem st')"
  by (rule tx_drain_ends [OF _ refl])
    (simp_all add: tx_queued_example_def tx_example_def Let_def producer_new_def complete_one_def
      newly_completed_def ring_pending_def consumer_available_def consumer_new_def umem_available_def)

theorem tx_drain_never_ends_witness:
  "tx_drain tx_example_cfg 2 [\<lambda>m. m, \<lambda>m. m, \<lambda>m. m] (tx_queued_example 0) = None"
  by (rule tx_drain_never_ends [OF _ _ _ refl _ refl])
    (simp_all add: tx_queued_example_def tx_example_def Let_def producer_new_def all_published_def consumes_published_def)

theorem tx_oversized_payload_witness:
  "\<exists>g um'. tx_write_packet tx_example_cfg one_one 8001 (MacAddress 2 0 0 0 0 1) (replicate 30 7)
      \<lparr>fr_offset = 0, fr_len = 0\<rparr> (tl_umem (tx_example [])) = Inr (g, um') \<and>
    buffer um' ! unat (frame_at (tl_umem (tx_example [])) (0 + 1)) = replicate 30 7 ! (unat (64 :: u32) - 42)"
  using tx_oversized_payload [OF tx_example_facts(2) [of "[]"], of 0 "\<lparr>fr_offset = 0, fr_len = 0\<rparr>" "replicate 30 7"
      tx_example_cfg one_one 8001 "MacAddress 2 0 0 0 0 1"]
  by (simp add: tx_example_facts frame_at_def) (simp add: tx_example_def Let_def)

end
