(* ===== verification/Xdp_Program.thy ===== *)
theory Xdp_Program
  imports Axdp_Prelude
begin

text \<open>
  The XDP program that steers packets to AF\<^verbatim>\<open>_\<close>XDP sockets, on both sides:
  \<^verbatim>\<open>src/xdp-ebpf/src/main.rs\<close>, which runs in the kernel for every packet, and
  \<^verbatim>\<open>src/src/program.rs\<close>, which loads it and puts sockets into its map. The \<^verbatim>\<open>aya\<close> libraries are
  parameters: \<open>aya_sys\<close> for the loader, and the map's \<^verbatim>\<open>redirect\<close> for the kernel program.
\<close>

section \<open>The kernel program\<close>

text \<open>The map from queue indices to sockets; \<^verbatim>\<open>XskMap::redirect\<close> is a function of it.\<close>

type_synonym xsk_map = "u32 \<rightharpoonup> int"
type_synonym xsk_redirect = "xsk_map \<Rightarrow> u32 \<Rightarrow> u64 \<Rightarrow> u32 + u32"

abbreviation XDP_PASS :: u32 where "XDP_PASS \<equiv> 2"
abbreviation XDP_REDIRECT :: u32 where "XDP_REDIRECT \<equiv> 4"

definition try_xdp_redirect :: "xsk_redirect \<Rightarrow> xsk_map \<Rightarrow> u32 \<Rightarrow> unit + u32" where
  "try_xdp_redirect redirect XSKS_MAP rx_queue_index =
     (case redirect XSKS_MAP rx_queue_index 0 of Inl _ \<Rightarrow> Inl () | Inr _ \<Rightarrow> Inr XDP_REDIRECT)"

definition xdp_redirect :: "xsk_redirect \<Rightarrow> xsk_map \<Rightarrow> u32 \<Rightarrow> u32" where
  "xdp_redirect redirect XSKS_MAP rx_queue_index =
     (case try_xdp_redirect redirect XSKS_MAP rx_queue_index of Inl _ \<Rightarrow> XDP_PASS | Inr ret \<Rightarrow> ret)"

section \<open>Loading it and inserting sockets\<close>

datatype xdp_mode = DRV_MODE | SKB_MODE

text \<open>
  What the code uses of a loaded object: its program names and its maps by name. \<open>aya_sys\<close>
  gives the outcome of each library call, an error text where it fails: loading the embedded
  object, taking a program as an XDP program, loading it, attaching it, taking a map as a
  socket map, and setting an entry of such a map.
\<close>

record ebpf =
  eb_programs :: "string list"
  eb_maps :: "string \<rightharpoonup> xsk_map"

record aya_sys =
  ay_load :: "string + ebpf"
  ay_as_xdp :: "string \<Rightarrow> string option"
  ay_program_load :: "string \<Rightarrow> string option"
  ay_attach :: "string \<Rightarrow> u32 \<Rightarrow> xdp_mode \<Rightarrow> string option"
  ay_as_xskmap :: "string \<Rightarrow> string option"
  ay_set :: "xsk_map \<Rightarrow> u32 \<Rightarrow> int \<Rightarrow> u64 \<Rightarrow> string + xsk_map"

definition err_if :: "string option \<Rightarrow> string + unit" where
  "err_if r = (case r of None \<Rightarrow> Inr () | Some e \<Rightarrow> Inl e)"

text \<open>The loaded object, with the mode the program was attached in.\<close>

definition load_xdp_program :: "aya_sys \<Rightarrow> u32 \<Rightarrow> string + (ebpf \<times> xdp_mode)" where
  "load_xdp_program aya if_index =
     rbind (ay_load aya) (\<lambda>ebpf.
     rbind (if ''xdp_redirect'' \<in> set (eb_programs ebpf) then Inr ''xdp_redirect''
            else if ''xdp'' \<in> set (eb_programs ebpf) then Inr ''xdp''
            else Inl ''no XDP program found in eBPF object'') (\<lambda>program_name.
     rbind (err_if (ay_as_xdp aya program_name)) (\<lambda>_.
     rbind (err_if (ay_program_load aya program_name)) (\<lambda>_.
     case ay_attach aya program_name if_index DRV_MODE of
       None \<Rightarrow> Inr (ebpf, DRV_MODE)
     | Some _ \<Rightarrow>
         rbind (err_if (ay_attach aya program_name if_index SKB_MODE)) (\<lambda>_. Inr (ebpf, SKB_MODE))))))"

definition insert_socket_into_xskmap :: "aya_sys \<Rightarrow> ebpf \<Rightarrow> u32 \<Rightarrow> int \<Rightarrow> string + ebpf" where
  "insert_socket_into_xskmap aya ebpf queue_id socket_fd =
     (case eb_maps ebpf ''XSKS_MAP'' of
        None \<Rightarrow> Inl ''XSKS_MAP not found in XDP program''
      | Some xskmap \<Rightarrow>
          rbind (err_if (ay_as_xskmap aya ''XSKS_MAP'')) (\<lambda>_.
          rbind (ay_set aya xskmap queue_id socket_fd 0) (\<lambda>xskmap.
          Inr (ebpf\<lparr>eb_maps := (eb_maps ebpf)(''XSKS_MAP'' \<mapsto> xskmap)\<rparr>))))"

section \<open>Packets reach the socket of their queue\<close>

text \<open>
  What the code relies on, as the libraries document it: setting an entry changes that entry
  only, and redirecting succeeds exactly on queues that have an entry.
\<close>

definition set_documented :: "aya_sys \<Rightarrow> bool" where
  "set_documented aya \<longleftrightarrow> (\<forall>m q fd m'. ay_set aya m q fd 0 = Inr m' \<longrightarrow> m' = m(q \<mapsto> fd))"

definition redirect_documented :: "xsk_redirect \<Rightarrow> bool" where
  "redirect_documented redirect \<longleftrightarrow>
     (\<forall>m q. redirect m q 0 = (if m q = None then Inl 0 else Inr XDP_REDIRECT))"

fun insert_all :: "aya_sys \<Rightarrow> ebpf \<Rightarrow> (u32 \<times> int) list \<Rightarrow> string + ebpf" where
  "insert_all aya ebpf [] = Inr ebpf"
| "insert_all aya ebpf ((q, fd) # qs) =
     rbind (insert_socket_into_xskmap aya ebpf q fd) (\<lambda>ebpf. insert_all aya ebpf qs)"

lemma insert_socket_map:
  assumes "insert_socket_into_xskmap aya ebpf q fd = Inr ebpf'" "set_documented aya"
    and "eb_maps ebpf ''XSKS_MAP'' = Some m"
  shows "eb_maps ebpf' ''XSKS_MAP'' = Some (m(q \<mapsto> fd))"
  using assms by (auto simp: insert_socket_into_xskmap_def rbind_eq_Inr_iff set_documented_def)

lemma insert_all_map:
  assumes "insert_all aya ebpf qs = Inr ebpf'" "set_documented aya"
    and "eb_maps ebpf ''XSKS_MAP'' = Some m"
  shows "eb_maps ebpf' ''XSKS_MAP'' = Some (m ++ map_of (rev qs))"
  using assms
proof (induction qs arbitrary: ebpf m)
  case (Cons p qs)
  obtain q fd where p: "p = (q, fd)" by (cases p)
  with Cons.prems(1) obtain ebpf1 where i: "insert_socket_into_xskmap aya ebpf q fd = Inr ebpf1"
    "insert_all aya ebpf1 qs = Inr ebpf'" by (auto simp: rbind_eq_Inr_iff)
  have "eb_maps ebpf' ''XSKS_MAP'' = Some (m(q \<mapsto> fd) ++ map_of (rev qs))"
    by (rule Cons.IH [OF i(2) Cons.prems(2) insert_socket_map [OF i(1) Cons.prems(2,3)]])
  then show ?case by (simp add: p map_add_assoc)
qed simp

text \<open>
  C31. Steering: after the sockets of some queues are put into the map of a freshly loaded
  object (whose map is empty), the XDP program redirects a packet exactly when it arrives on
  one of these queues, to the socket inserted last for it, and lets every other packet pass to
  the kernel. The map's operations are assumed to behave as documented.
\<close>

theorem xdp_redirect_steers:
  assumes "set_documented aya" "redirect_documented redirect"
    and "eb_maps ebpf ''XSKS_MAP'' = Some Map.empty" "insert_all aya ebpf qs = Inr ebpf'"
  shows "\<exists>m. eb_maps ebpf' ''XSKS_MAP'' = Some m \<and>
    (\<forall>q. xdp_redirect redirect m q = (if q \<in> fst ` set qs then XDP_REDIRECT else XDP_PASS)) \<and>
    (\<forall>pre post q fd. qs = pre @ (q, fd) # post \<and> q \<notin> fst ` set post \<longrightarrow> m q = Some fd)"
proof -
  have m: "eb_maps ebpf' ''XSKS_MAP'' = Some (map_of (rev qs))"
    using insert_all_map [OF assms(4,1,3)] by simp
  have r: "xdp_redirect redirect (map_of (rev qs)) q =
      (if q \<in> fst ` set qs then XDP_REDIRECT else XDP_PASS)" for q
    using assms(2) by (simp add: xdp_redirect_def try_xdp_redirect_def redirect_documented_def map_of_eq_None_iff)
  have l: "map_of (rev (pre @ (q, fd) # post)) q = Some fd" if "q \<notin> fst ` set post" for pre post q fd
    using that by (simp add: map_add_Some_iff map_of_eq_None_iff)
  show ?thesis by (intro exI [of _ "map_of (rev qs)"] conjI allI impI) (use m r l in auto)
qed

definition aya_ok :: aya_sys where
  "aya_ok = \<lparr>ay_load = Inr \<lparr>eb_programs = [''xdp_redirect''], eb_maps = [''XSKS_MAP'' \<mapsto> Map.empty]\<rparr>,
     ay_as_xdp = \<lambda>_. None, ay_program_load = \<lambda>_. None, ay_attach = \<lambda>_ _ _. None,
     ay_as_xskmap = \<lambda>_. None,
     ay_set = \<lambda>m q fd flags. if q < 64 then Inr (m(q \<mapsto> fd)) else Inl ''out of bounds''\<rparr>"

definition redirect_ok :: xsk_redirect where
  "redirect_ok m q flags = (if m q = None then Inl (ucast flags) else Inr XDP_REDIRECT)"

theorem xdp_redirect_steers_witness:
  "\<exists>ebpf' m. insert_all aya_ok \<lparr>eb_programs = [''xdp_redirect''], eb_maps = [''XSKS_MAP'' \<mapsto> Map.empty]\<rparr>
       [(0, 7), (3, 8)] = Inr ebpf' \<and>
     eb_maps ebpf' ''XSKS_MAP'' = Some m \<and>
     xdp_redirect redirect_ok m 3 = XDP_REDIRECT \<and> xdp_redirect redirect_ok m 1 = XDP_PASS \<and> m 3 = Some 8"
proof -
  let ?e = "\<lparr>eb_programs = [''xdp_redirect''], eb_maps = [''XSKS_MAP'' \<mapsto> Map.empty]\<rparr> :: ebpf"
  have i: "\<exists>ebpf'. insert_all aya_ok ?e [(0, 7), (3, 8)] = Inr ebpf'"
    by (simp add: aya_ok_def insert_socket_into_xskmap_def err_if_def)
  then obtain ebpf' where e: "insert_all aya_ok ?e [(0, 7), (3, 8)] = Inr ebpf'" by blast
  have d: "set_documented aya_ok" "redirect_documented redirect_ok"
    by (auto simp: set_documented_def aya_ok_def redirect_documented_def redirect_ok_def split: if_splits)
  obtain m where m: "eb_maps ebpf' ''XSKS_MAP'' = Some m"
    "\<forall>q. xdp_redirect redirect_ok m q = (if q \<in> fst ` set [(0, 7), (3, 8)] then XDP_REDIRECT else XDP_PASS)"
    "\<forall>pre post q fd. [(0, 7), (3, 8)] = pre @ (q, fd) # post \<and> q \<notin> fst ` set post \<longrightarrow> m q = Some fd"
    using xdp_redirect_steers [OF d _ e] by auto
  have "m 3 = Some 8" using m(3) [rule_format, of "[(0, 7)]" 3 8 "[]"] by simp
  then show ?thesis using e m(1,2) by (intro exI [of _ ebpf'] exI [of _ m]) simp
qed

end
