(* ===== verification/Relay_Loop.thy ===== *)
theory Relay_Loop
  imports Packet Loop_Common Xdp_Program
begin

text \<open>
  \<^verbatim>\<open>src/src/relay_loop.rs\<close>: the loop that receives packets, rewrites their headers in place and
  queues the same frames for transmission. The routine calls \<^verbatim>\<open>wake\<close> only for its effect on the
  kernel; the state counts the calls.
\<close>

section \<open>One packet\<close>

record relay_cfg =
  ry_src_mac :: mac_address
  ry_src_ip :: ipv4_addr
  ry_dest_ip :: "ipv4_addr option"
  ry_dest_port :: "u16 option"
  ry_dest_mac :: "mac_address option"

record relay_state =
  ry_umem :: slice_umem
  ry_fill :: rx_fill_ring
  ry_rx :: rx_ring
  ry_tx :: tx_ring
  ry_completion :: tx_completion_ring
  ry_batch_count :: nat
  ry_total_packets :: usize
  ry_wakes :: nat

abbreviation RELAY_BATCH_SIZE :: nat where "RELAY_BATCH_SIZE \<equiv> 32"
abbreviation VOTE_SIZE_THRESHOLD :: nat where "VOTE_SIZE_THRESHOLD \<equiv> 400"
abbreviation IPPROTO_UDP :: u8 where "IPPROTO_UDP \<equiv> 17"

definition HEADER_SIZE :: nat where
  "HEADER_SIZE = ETH_HEADER_SIZE + IP_HEADER_SIZE + UDP_HEADER_SIZE"

text \<open>Return a frame to the fill ring, or to the allocator when the ring is full.\<close>

definition give_back :: "frame_offset \<Rightarrow> relay_state \<times> xsk_mem \<Rightarrow> relay_state \<times> xsk_mem" where
  "give_back umem_offset s = (case s of (st, mem) \<Rightarrow>
     (case fill_write (from_offset umem_offset 0) (ry_fill st) (xm_fill mem) of
        (Inl _, fill, fm) \<Rightarrow>
          (st\<lparr>ry_fill := fill, ry_umem := release umem_offset (ry_umem st)\<rparr>, mem\<lparr>xm_fill := fm\<rparr>)
      | (Inr _, fill, fm) \<Rightarrow> (st\<lparr>ry_fill := fill\<rparr>, mem\<lparr>xm_fill := fm\<rparr>)))"

definition relay_commit :: "relay_state \<Rightarrow> xsk_mem \<Rightarrow> xsk_mem" where
  "relay_commit st mem =
     mem\<lparr>xm_rx := rx_commit (ry_rx st) (xm_rx mem), xm_tx := tx_commit (ry_tx st) (xm_tx mem),
         xm_fill := fill_commit (ry_fill st) (xm_fill mem)\<rparr>"

definition batch_commit :: "relay_state \<times> xsk_mem \<Rightarrow> relay_state \<times> xsk_mem" where
  "batch_commit s = (case s of (st, mem) \<Rightarrow>
     let st = st\<lparr>ry_batch_count := ry_batch_count st + 1\<rparr> in
     if ry_batch_count st \<ge> RELAY_BATCH_SIZE then
       let mem = relay_commit st mem;
           st = (if tx_needs_wakeup (xm_tx mem) then st\<lparr>ry_wakes := ry_wakes st + 1\<rparr> else st)
       in (st\<lparr>ry_batch_count := 0\<rparr>, mem)
     else (st, mem))"

text \<open>Rewrite the headers in the frame and queue it; give it back when the ring is full.\<close>

definition relay_forward ::
  "relay_cfg \<Rightarrow> ipv4_addr \<Rightarrow> u16 \<Rightarrow> mac_address \<Rightarrow> frame_offset \<Rightarrow> u8 list
     \<Rightarrow> relay_state \<times> xsk_mem \<Rightarrow> (relay_state \<times> xsk_mem) io_result" where
  "relay_forward cfg dest_ip dest_port dest_mac umem_offset packet s = (case s of (st, mem) \<Rightarrow>
     let packet_len = length packet; payload_len = packet_len - HEADER_SIZE in
     case write_packet_headers (ry_src_mac cfg) dest_mac (ry_src_ip cfg) dest_ip 12345 dest_port
            payload_len packet of
       None \<Rightarrow> Inl (Panic ''slice index out of range'')
     | Some packet \<Rightarrow>
         (case put_frame (from_offset umem_offset (of_nat packet_len)) packet (ry_umem st) of
            None \<Rightarrow> Inl (Undefined ''write outside the frame memory'')
          | Some um \<Rightarrow>
              let st = st\<lparr>ry_umem := um\<rparr> in
              (case tx_write (from_offset umem_offset (of_nat packet_len)) 0 (ry_tx st) (xm_tx mem) of
                 (Inl _, tx, tm) \<Rightarrow>
                   Inr (give_back umem_offset (st\<lparr>ry_tx := tx\<rparr>, mem\<lparr>xm_tx := tm\<rparr>))
               | (Inr _, tx, tm) \<Rightarrow> Inr (st\<lparr>ry_tx := tx\<rparr>, mem\<lparr>xm_tx := tm\<rparr>))))"

definition relay_packet ::
  "relay_cfg \<Rightarrow> xdp_desc \<Rightarrow> relay_state \<times> xsk_mem \<Rightarrow> (relay_state \<times> xsk_mem) io_result" where
  "relay_packet cfg desc s = (case s of (st, mem) \<Rightarrow>
     let umem_offset = xd_addr desc; packet_len = unat (xd_len desc);
         s = (st\<lparr>ry_total_packets := ry_total_packets st + 1\<rparr>, mem) in
     if packet_len < HEADER_SIZE + VOTE_SIZE_THRESHOLD then Inr (give_back umem_offset s)
     else case map_frame (ry_umem st) (from_offset umem_offset (of_nat packet_len)) of
       None \<Rightarrow> Inl (Undefined ''read outside the frame memory'')
     | Some packet \<Rightarrow>
         (case get 9 (drop ETH_HEADER_SIZE packet) of
            None \<Rightarrow> Inl (Panic ''index out of bounds'')
          | Some protocol \<Rightarrow>
              if protocol \<noteq> IPPROTO_UDP then Inr (give_back umem_offset s)
              else
                rbind (case (ry_dest_ip cfg, ry_dest_port cfg, ry_dest_mac cfg) of
                         (Some dest_ip, Some dest_port, Some dest_mac) \<Rightarrow>
                           relay_forward cfg dest_ip dest_port dest_mac umem_offset packet s
                       | _ \<Rightarrow> Inr (give_back umem_offset s))
                  (\<lambda>s. Inr (batch_commit s))))"

section \<open>The loop\<close>

lemma give_back_rx: "ry_rx (fst (give_back off s)) = ry_rx (fst s)"
  by (auto simp: give_back_def split: prod.splits sum.splits)

lemma batch_commit_rx: "ry_rx (fst (batch_commit s)) = ry_rx (fst s)"
  by (auto simp: batch_commit_def Let_def split: prod.splits)

lemma relay_forward_rx: "relay_forward cfg ip port mac off packet s = Inr s' \<Longrightarrow> ry_rx (fst s') = ry_rx (fst s)"
  by (auto simp: relay_forward_def Let_def give_back_rx split: prod.splits option.splits sum.splits)

lemma relay_packet_rx: "relay_packet cfg desc s = Inr s' \<Longrightarrow> ry_rx (fst s') = ry_rx (fst s)"
  by (auto simp: relay_packet_def Let_def rbind_eq_Inr_iff give_back_rx batch_commit_rx
      split: prod.splits option.splits if_splits dest!: relay_forward_rx)

function relay_rx :: "relay_cfg \<Rightarrow> relay_state \<times> xsk_mem \<Rightarrow> (relay_state \<times> xsk_mem) io_result" where
  "relay_rx cfg s =
     (case rx_read (ry_rx (fst s)) (xm_rx (snd s)) of
        (None, rx) \<Rightarrow> Inr ((fst s)\<lparr>ry_rx := rx\<rparr>, snd s)
      | (Some desc, rx) \<Rightarrow>
          (case relay_packet cfg desc ((fst s)\<lparr>ry_rx := rx\<rparr>, snd s) of
             Inl e \<Rightarrow> Inl e
           | Inr s \<Rightarrow> relay_rx cfg s))"
  by pat_completeness auto
termination
  by (relation "measure (\<lambda>(cfg, s). unat (consumer_available (rr_consumer (ry_rx (fst s)))))")
    (auto simp: rx_read_def dest!: relay_packet_rx dest: consume_available split: prod.splits option.splits)

declare relay_rx.simps [simp del]

definition relay_sync :: "relay_state \<times> xsk_mem \<Rightarrow> relay_state \<times> xsk_mem" where
  "relay_sync s = (case s of (st, mem) \<Rightarrow>
     let (rx, rm) = rx_sync False (ry_rx st) (xm_rx mem);
         (tx, tm) = tx_sync False (ry_tx st) (xm_tx mem);
         (completion, cm) = completion_sync False (ry_completion st) (xm_completion mem);
         (fill, fm) = fill_sync False (ry_fill st) (xm_fill mem) in
     (st\<lparr>ry_rx := rx, ry_tx := tx, ry_completion := completion, ry_fill := fill\<rparr>,
      mem\<lparr>xm_rx := rm, xm_tx := tm, xm_completion := cm, xm_fill := fm\<rparr>))"

definition relay_release_completed :: "relay_state \<times> xsk_mem \<Rightarrow> relay_state \<times> xsk_mem" where
  "relay_release_completed s = (case s of (st, mem) \<Rightarrow>
     case drain_completion (ry_umem st) (ry_completion st) (xm_completion mem) of
       (um, completion) \<Rightarrow> (st\<lparr>ry_umem := um, ry_completion := completion\<rparr>, mem))"

definition relay_refill :: "relay_state \<times> xsk_mem \<Rightarrow> relay_state \<times> xsk_mem" where
  "relay_refill s = (case s of (st, mem) \<Rightarrow>
     case refill (ry_umem st) (ry_fill st) (xm_fill mem) of
       (um, fill, fm) \<Rightarrow> (st\<lparr>ry_umem := um, ry_fill := fill\<rparr>, mem\<lparr>xm_fill := fm\<rparr>))"

definition relay_final_commit :: "relay_state \<times> xsk_mem \<Rightarrow> relay_state \<times> xsk_mem" where
  "relay_final_commit s = (case s of (st, mem) \<Rightarrow>
     if ry_batch_count st > 0 then (st\<lparr>ry_batch_count := 0\<rparr>, relay_commit st mem) else (st, mem))"

definition relay_iteration ::
  "relay_cfg \<Rightarrow> relay_state \<times> xsk_mem \<Rightarrow> (relay_state \<times> xsk_mem) io_result" where
  "relay_iteration cfg s =
     rbind (relay_rx cfg (relay_release_completed (relay_sync s)))
       (\<lambda>s. Inr (relay_final_commit (relay_refill s)))"

text \<open>
  The endless loop on its inputs, the changes the kernel makes to the rings before each
  iteration: the state after the last of them.
\<close>

fun relay_main ::
  "relay_cfg \<Rightarrow> (xsk_mem \<Rightarrow> xsk_mem) list \<Rightarrow> relay_state \<times> xsk_mem \<Rightarrow> (relay_state \<times> xsk_mem) io_result"
where
  "relay_main cfg [] s = Inr s"
| "relay_main cfg (kern # inputs) s =
     rbind (relay_iteration cfg (fst s, kern (snd s))) (relay_main cfg inputs)"

section \<open>Start-up\<close>

text \<open>
  The loop that pre-fills the fill ring: a frame whose write fails is neither in the ring nor
  given back.
\<close>

fun relay_prefill ::
  "nat \<Rightarrow> slice_umem \<Rightarrow> rx_fill_ring \<Rightarrow> u64 ring_mem \<Rightarrow> slice_umem \<times> rx_fill_ring \<times> u64 ring_mem" where
  "relay_prefill 0 um fill m = (um, fill, m)"
| "relay_prefill (Suc n) um fill m =
     (case reserve um of
        None \<Rightarrow> (um, fill, m)
      | Some (frame, um) \<Rightarrow>
          (case fill_write frame fill m of
             (Inl _, fill, m) \<Rightarrow> (um, fill, m)
           | (Inr _, fill, m) \<Rightarrow> relay_prefill n um fill m))"

definition choose_dest_mac ::
  "router \<Rightarrow> ipv4_addr option \<Rightarrow> mac_address option \<Rightarrow> mac_address option io_result" where
  "choose_dest_mac router dest_ip dest_mac_override =
     (case dest_ip of
        None \<Rightarrow> Inr None
      | Some ip \<Rightarrow>
          (case dest_mac_override of
             Some mac \<Rightarrow> Inr (Some mac)
           | None \<Rightarrow>
               (case router_route router (V4 ip) of
                  None \<Rightarrow> Inl (Panic ''slice index out of range'')
                | Some (Inl _) \<Rightarrow> Inr None
                | Some (Inr next_hop) \<Rightarrow> Inr (nh_mac_addr next_hop))))"

definition relay_fill_at_start ::
  "usize \<Rightarrow> slice_umem \<Rightarrow> rx_fill_ring \<Rightarrow> u64 ring_mem \<Rightarrow> slice_umem \<times> rx_fill_ring \<times> u64 ring_mem" where
  "relay_fill_at_start rx_size um fill m =
     (let (fill, m) = fill_sync False fill m;
          frames_to_add = min (unat rx_size) (umem_available um);
          (um, fill, m) = relay_prefill frames_to_add um fill m
      in (um, fill, fill_commit fill m))"

text \<open>
  Everything before the loop. Opening the device, the frame memory, the program and the socket
  first; \<^verbatim>\<open>expect\<close>, \<^verbatim>\<open>unwrap\<close> and the explicit panics all end the thread.
\<close>

definition relay_open ::
  "loop_sys \<Rightarrow> device_sys \<Rightarrow> xsk_sys \<Rightarrow> aya_sys \<Rightarrow> bool \<Rightarrow> usize \<Rightarrow> network_device \<Rightarrow> u64 \<Rightarrow> bool
     \<Rightarrow> (mac_address \<times> ipv4_addr \<times> usize \<times> relay_state \<times> xsk_mem \<times> ebpf) io_result" where
  "relay_open sys dsys xsys aya dbg cpu_id dev queue_id zero_copy =
     rbind (unwrap (set_cpu_affinity sys [cpu_id])) (\<lambda>_.
     rbind (unwrap (device_mac_addr dsys dev)) (\<lambda>src_mac.
     rbind (unwrap (device_ipv4_addr dsys dev)) (\<lambda>src_ip.
     rbind (unwrap (open_queue dsys dev queue_id)) (\<lambda>queue.
     let sizes = (case dq_ring_sizes queue of Some s \<Rightarrow> s | None \<Rightarrow> ring_sizes_default);
         rx_size = rs_rx sizes; tx_size = rs_tx sizes in
     rbind (if dbg \<and> (add_overflows rx_size tx_size \<or> mul_overflows (rx_size + tx_size) 2)
            then Inl (Panic ''arithmetic overflow'') else Inr ((rx_size + tx_size) * 2)) (\<lambda>frame_count.
     rbind (frames_umem sys dbg frame_count) (\<lambda>(umem_ptr, um).
     rbind (raise_privileges sys) (\<lambda>_.
     case load_xdp_program aya (nd_if_index dev) of
       Inl _ \<Rightarrow> Inl (Panic ''cannot continue without XDP program'')
     | Inr (xdp_program, _) \<Rightarrow>
         (case socket_new xsys dbg umem_ptr queue um zero_copy rx_size rx_size (tx_size * 2) tx_size of
            Inl (IoErr _) \<Rightarrow> Inl (Panic ''failed to create bidirectional AF_XDP socket'')
          | Inl f \<Rightarrow> Inl f
          | Inr (socket, rx, tx, mem) \<Rightarrow>
              (case insert_socket_into_xskmap aya xdp_program (ucast queue_id) (sk_fd socket) of
                 Inl _ \<Rightarrow> Inl (Panic ''cannot redirect packets without XSKMAP binding'')
               | Inr xdp_program \<Rightarrow>
                   (case (rx_ring rx, tx_ring tx) of
                      (None, _) \<Rightarrow> Inl (Panic ''RX ring must exist'')
                    | (Some _, None) \<Rightarrow> Inl (Panic ''TX ring must exist'')
                    | (Some rxr, Some txr) \<Rightarrow>
                        Inr (src_mac, src_ip, rx_size,
                          \<lparr>ry_umem = sk_umem socket, ry_fill = rx_fill rx, ry_rx = rxr, ry_tx = txr,
                           ry_completion = tx_completion tx, ry_batch_count = 0, ry_total_packets = 0,
                           ry_wakes = 0\<rparr>, mem, xdp_program)))))))))))"

text \<open>Then the router (which may block: \<^term>\<open>None\<close>), the destination and the pre-filling.\<close>

definition relay_start ::
  "loop_sys \<Rightarrow> device_sys \<Rightarrow> xsk_sys \<Rightarrow> aya_sys \<Rightarrow> netlink_sys \<Rightarrow> netlink_sys \<Rightarrow> bool \<Rightarrow> usize
     \<Rightarrow> network_device \<Rightarrow> u64 \<Rightarrow> bool \<Rightarrow> ipv4_addr option \<Rightarrow> u16 option \<Rightarrow> mac_address option
     \<Rightarrow> (relay_cfg \<times> relay_state \<times> xsk_mem) io_result option" where
  "relay_start sys dsys xsys aya neigh_sys route_sys dbg cpu_id dev queue_id zero_copy
     dest_ip dest_port dest_mac_override =
     (case relay_open sys dsys xsys aya dbg cpu_id dev queue_id zero_copy of
        Inl f \<Rightarrow> Some (Inl f)
      | Inr (src_mac, src_ip, rx_size, st, mem, _) \<Rightarrow>
          map_option (\<lambda>r.
            rbind (unwrap r) (\<lambda>router.
            rbind (raise_caps (ls_caps_drop sys) [CAP_NET_ADMIN, CAP_NET_RAW]) (\<lambda>_.
            rbind (choose_dest_mac router dest_ip dest_mac_override) (\<lambda>dest_mac.
            case relay_fill_at_start rx_size (ry_umem st) (ry_fill st) (xm_fill mem) of
              (um, fill, fm) \<Rightarrow>
                Inr (\<lparr>ry_src_mac = src_mac, ry_src_ip = src_ip, ry_dest_ip = dest_ip,
                      ry_dest_port = dest_port, ry_dest_mac = dest_mac\<rparr>,
                     st\<lparr>ry_umem := um, ry_fill := fill\<rparr>, mem\<lparr>xm_fill := fm\<rparr>)))))
            (router_new dbg neigh_sys route_sys))"

section \<open>Accounting for frames\<close>

text \<open>
  \<open>relayed ds fs ts s s'\<close>: going from \<open>s\<close> to \<open>s'\<close>, the frames of the descriptors \<open>ds\<close> were
  taken over, \<open>fs\<close> was appended to the fill ring and \<open>ts\<close> to the transmit ring, and every frame
  taken over is in one of them or with the allocator.
\<close>

definition relayed ::
  "xdp_desc list \<Rightarrow> frame_offset list \<Rightarrow> xdp_desc list \<Rightarrow> relay_state \<times> xsk_mem \<Rightarrow> relay_state \<times> xsk_mem \<Rightarrow> bool"
where
  "relayed ds fs ts s s' \<longleftrightarrow>
     fill_appended fs (ry_fill (fst s), xm_fill (snd s)) (ry_fill (fst s'), xm_fill (snd s')) \<and>
     tx_appended ts (ry_tx (fst s), xm_tx (snd s)) (ry_tx (fst s'), xm_tx (snd s')) \<and>
     rm_desc (xm_rx (snd s')) = rm_desc (xm_rx (snd s)) \<and>
     rm_producer (xm_rx (snd s')) = rm_producer (xm_rx (snd s)) \<and>
     ry_completion (fst s') = ry_completion (fst s) \<and> xm_completion (snd s') = xm_completion (snd s) \<and>
     frame_index (ry_umem (fst s')) = frame_index (ry_umem (fst s)) \<and>
     length (buffer (ry_umem (fst s'))) = length (buffer (ry_umem (fst s))) \<and>
     (\<forall>R. owned (ry_umem (fst s)) (desc_indices (ry_umem (fst s)) ds + R) \<longrightarrow>
        owned (ry_umem (fst s')) (mset (map (frame_index (ry_umem (fst s))) fs)
          + desc_indices (ry_umem (fst s)) ts + R))"

lemma relayed_refl: "relayed [] [] [] s s"
  by (simp add: relayed_def)

lemma relayed_trans:
  assumes "relayed ds fs ts s t" "relayed ds' fs' ts' t u"
  shows "relayed (ds @ ds') (fs @ fs') (ts @ ts') s u"
proof -
  let ?i = "frame_index (ry_umem (fst s))"
  have i: "frame_index (ry_umem (fst t)) = ?i" using assms(1) by (simp add: relayed_def)
  have "owned (ry_umem (fst u)) (mset (map ?i (fs @ fs')) + desc_indices (ry_umem (fst s)) (ts @ ts') + R)"
    if o: "owned (ry_umem (fst s)) (desc_indices (ry_umem (fst s)) (ds @ ds') + R)" for R
  proof -
    have "owned (ry_umem (fst s)) (desc_indices (ry_umem (fst s)) ds + (desc_indices (ry_umem (fst s)) ds' + R))"
      using o by (simp add: add.assoc)
    then have "owned (ry_umem (fst t)) (mset (map ?i fs) + desc_indices (ry_umem (fst s)) ts
        + (desc_indices (ry_umem (fst s)) ds' + R))"
      using assms(1) unfolding relayed_def by blast
    then have "owned (ry_umem (fst t)) (desc_indices (ry_umem (fst t)) ds'
        + (mset (map ?i fs) + desc_indices (ry_umem (fst s)) ts + R))"
      by (simp add: i ac_simps)
    then have "owned (ry_umem (fst u)) (mset (map (frame_index (ry_umem (fst t))) fs')
        + desc_indices (ry_umem (fst t)) ts' + (mset (map ?i fs) + desc_indices (ry_umem (fst s)) ts + R))"
      using assms(2) unfolding relayed_def by blast
    then show ?thesis by (simp add: i ac_simps)
  qed
  then show ?thesis
    using assms unfolding relayed_def by (auto intro: fill_appended_trans tx_appended_trans)
qed

lemma give_back_relayed:
  assumes "give_back (xd_addr d) s = s'"
  shows "\<exists>fs. relayed [d] fs [] s s'"
proof (cases s)
  case (Pair st mem)
  obtain res fill fm where w: "fill_write (from_offset (xd_addr d) 0) (ry_fill st) (xm_fill mem) = (res, fill, fm)"
    by (metis prod_cases3)
  show ?thesis
  proof (cases res)
    case (Inl e)
    then have "fill = ry_fill st" "fm = xm_fill mem" using fill_write_full w by blast+
    then have "relayed [d] [] [] s s'"
      using assms w Inl Pair release_owned(1) [of "ry_umem st" _ "xd_addr d"]
      by (force simp: give_back_def relayed_def release_def frame_index_def fun_eq_iff)
    then show ?thesis by blast
  next
    case (Inr u)
    then have "relayed [d] [xd_addr d] [] s s'"
      using assms w Pair fill_write_appended [of "from_offset (xd_addr d) 0" "ry_fill st" "xm_fill mem" u fill fm]
      by (auto simp: give_back_def relayed_def from_offset_def)
    then show ?thesis by blast
  qed
qed

lemma relay_commit_relayed: "relayed [] [] [] (st, mem) (st\<lparr>ry_wakes := w, ry_batch_count := b\<rparr>, relay_commit st mem)"
  by (simp add: relayed_def relay_commit_def fill_commit_appended tx_commit_appended rx_commit_def consumer_commit_def)

section \<open>What happens to a packet\<close>

definition desc_frame :: "xdp_desc \<Rightarrow> umem_frame" where
  "desc_frame d = from_offset (xd_addr d) (ucast (xd_len d))"

text \<open>A descriptor the kernel may deliver: its bytes are in the memory.\<close>

definition in_memory :: "slice_umem \<Rightarrow> xdp_desc \<Rightarrow> bool" where
  "in_memory um d \<longleftrightarrow> unat (xd_addr d) + unat (xd_len d) \<le> length (buffer um)"

text \<open>
  The packets the loop relays: of at least 442 bytes (the three headers and 400 bytes more), and
  17 in byte 23, the protocol field if the frame is untagged IPv4. The loop looks at neither the
  EtherType nor the header length, so a frame of another kind with that byte is relayed too.
\<close>

definition relayable :: "slice_umem \<Rightarrow> xdp_desc \<Rightarrow> bool" where
  "relayable um d \<longleftrightarrow> HEADER_SIZE + VOTE_SIZE_THRESHOLD \<le> unat (xd_len d) \<and>
     (case map_frame um (desc_frame d) of None \<Rightarrow> False | Some p \<Rightarrow> p ! 23 = IPPROTO_UDP)"

text \<open>The indices the kernel sees: receive consumer, transmit producer, fill producer.\<close>

definition published :: "xsk_mem \<Rightarrow> u32 \<times> u32 \<times> u32" where
  "published mem = (rm_consumer (xm_rx mem), rm_producer (xm_tx mem), rm_producer (xm_fill mem))"

lemma HEADER_SIZE_eq: "HEADER_SIZE = 42"
  by (simp add: HEADER_SIZE_def header_sizes)

lemma ucast_u32_u64 [simp]: "(ucast (ucast (w :: u32) :: u64) :: u32) = w"
proof -
  have "unat w < 2 ^ 32" using unsigned_less [of w, where ?'a = nat] by simp
  then show ?thesis by (simp add: word_unat_eq_iff unat_ucast_mod)
qed

lemma in_memory_frame:
  assumes "in_memory um d"
  obtains p where "map_frame um (desc_frame d) = Some p" "length p = unat (xd_len d)"
  using assms by (auto simp: in_memory_def map_frame_def desc_frame_def from_offset_def subslice_def unat_ucast_up)

lemma give_back_facts:
  assumes "give_back off s = s'"
  shows "map_frame (ry_umem (fst s')) = map_frame (ry_umem (fst s))"
    "ry_batch_count (fst s') = ry_batch_count (fst s)" "ry_wakes (fst s') = ry_wakes (fst s)"
    "published (snd s') = published (snd s)"
  using assms
  by (auto simp: give_back_def release_def map_frame_def fun_eq_iff published_def fill_write_def
      split: prod.splits sum.splits option.splits)

lemma batch_commit_facts:
  assumes "batch_commit s = s'" "ry_batch_count (fst s) < 32"
  shows "relayed [] [] [] s s'" "ry_umem (fst s') = ry_umem (fst s)"
    "ry_batch_count (fst s') = Suc (ry_batch_count (fst s)) mod 32"
proof -
  obtain st mem where s: "s = (st, mem)" by (cases s)
  show "relayed [] [] [] s s'"
    using assms(1) relayed_refl relay_commit_relayed [of st mem]
    by (auto simp: batch_commit_def s Let_def relay_commit_def relayed_def split: if_splits)
  show "ry_umem (fst s') = ry_umem (fst s)" "ry_batch_count (fst s') = Suc (ry_batch_count (fst s)) mod 32"
    using assms mod_Suc [of "ry_batch_count st" 32] by (auto simp: batch_commit_def s Let_def split: if_splits)
qed

definition relayed_bytes :: "relay_cfg \<Rightarrow> ipv4_addr \<Rightarrow> u16 \<Rightarrow> mac_address \<Rightarrow> u8 list \<Rightarrow> u8 list" where
  "relayed_bytes cfg dest_ip dest_port dest_mac p =
     header_bytes (ry_src_mac cfg) dest_mac (ry_src_ip cfg) dest_ip 12345 dest_port (length p - 42) @ drop 42 p"

lemma relay_forward_ok:
  assumes "map_frame (ry_umem (fst s)) (desc_frame d) = Some p" "length p = unat (xd_len d)" "42 \<le> length p"
  obtains s' fs ts where "relay_forward cfg ip port mac (xd_addr d) p s = Inr s'" "relayed [d] fs ts s s'"
    "ry_batch_count (fst s') = ry_batch_count (fst s)"
    "map_frame (ry_umem (fst s')) (desc_frame d) = Some (relayed_bytes cfg ip port mac p)"
    "\<And>f. apart (desc_frame d) f \<Longrightarrow> map_frame (ry_umem (fst s')) f = map_frame (ry_umem (fst s)) f"
    "tx_available (ry_tx (fst s)) > 0 \<Longrightarrow> ts = [d\<lparr>xd_options := 0\<rparr>]"
proof -
  obtain st mem where s: "s = (st, mem)" by (cases s)
  let ?q = "relayed_bytes cfg ip port mac p"
  have lq: "length ?q = unat (fr_len (desc_frame d))"
    using assms(2,3) by (simp add: relayed_bytes_def desc_frame_def from_offset_def unat_ucast_up)
  have df: "from_offset (xd_addr d) (of_nat (length p)) = desc_frame d" by (simp add: assms(2) desc_frame_def)
  have h: "write_packet_headers (ry_src_mac cfg) mac (ry_src_ip cfg) ip 12345 port (length p - HEADER_SIZE) p = Some ?q"
    by (simp add: write_packet_headers_eq [OF assms(3)] relayed_bytes_def HEADER_SIZE_eq)
  have "unat (fr_offset (desc_frame d)) + length ?q \<le> length (buffer (ry_umem st))"
    using assms(1) unfolding lq by (auto simp: s map_frame_def subslice_def split: if_splits)
  then obtain um where um: "put_frame (desc_frame d) ?q (ry_umem st) = Some um" using put_frame_fits by blast
  note pf = put_frame_facts [OF um] and same = map_put_same [OF um lq] and other = map_put_apart [OF um lq]
  obtain res tx tm where w: "tx_write (desc_frame d) 0 (ry_tx st) (xm_tx mem) = (res, tx, tm)" by (metis prod_cases3)
  let ?t = "(st\<lparr>ry_umem := um, ry_tx := tx\<rparr>, mem\<lparr>xm_tx := tm\<rparr>)"
  have fw: "relay_forward cfg ip port mac (xd_addr d) p s =
      Inr (case res of Inl _ \<Rightarrow> give_back (xd_addr d) ?t | Inr _ \<Rightarrow> ?t)"
    by (simp add: relay_forward_def s Let_def h df um w split: sum.splits)
  show thesis
  proof (cases res)
    case (Inl e)
    obtain s' where g: "give_back (xd_addr d) ?t = s'" by blast
    obtain fs where "relayed [d] fs [] ?t s'" using give_back_relayed [OF g] by blast
    moreover have full: "tx_available (ry_tx st) = 0 \<and> tx = ry_tx st \<and> tm = xm_tx mem"
      using tx_write_full w Inl by blast
    then have "relayed [] [] [] s ?t" by (simp add: relayed_def s pf)
    ultimately have "relayed [d] fs [] s s'" using relayed_trans by fastforce
    then show thesis
      using that [of s' fs "[]"] fw Inl g full give_back_facts [OF g] same other by (simp add: s)
  next
    case (Inr u)
    have desc: "\<lparr>xd_addr = xd_addr d, xd_len = xd_len d, xd_options = 0\<rparr> = d\<lparr>xd_options := 0\<rparr>" by simp
    have "tx_appended [d\<lparr>xd_options := 0\<rparr>] (ry_tx st, xm_tx mem) (tx, tm)"
      using tx_write_appended [OF w [unfolded Inr]] desc by (simp add: desc_frame_def from_offset_def)
    then have "relayed [d] [] [d\<lparr>xd_options := 0\<rparr>] s ?t" by (auto simp: relayed_def s pf)
    then show thesis using that [of ?t "[]"] fw Inr same other by (simp add: s)
  qed
qed

text \<open>
  What should become of a packet's frame, and which descriptors should be queued: a relayable
  packet gets new headers if the destination is known, everything else stays as it is.
\<close>

definition relay_dest :: "relay_cfg \<Rightarrow> (ipv4_addr \<times> u16 \<times> mac_address) option" where
  "relay_dest cfg = (case (ry_dest_ip cfg, ry_dest_port cfg, ry_dest_mac cfg) of
     (Some ip, Some port, Some mac) \<Rightarrow> Some (ip, port, mac) | _ \<Rightarrow> None)"

definition frame_after :: "relay_cfg \<Rightarrow> slice_umem \<Rightarrow> xdp_desc \<Rightarrow> u8 list option" where
  "frame_after cfg um d =
     (case relay_dest cfg of
        None \<Rightarrow> map_frame um (desc_frame d)
      | Some (ip, port, mac) \<Rightarrow>
          if relayable um d then map_option (relayed_bytes cfg ip port mac) (map_frame um (desc_frame d))
          else map_frame um (desc_frame d))"

definition forwards :: "relay_cfg \<Rightarrow> slice_umem \<Rightarrow> xdp_desc list \<Rightarrow> xdp_desc list" where
  "forwards cfg um ds =
     (if relay_dest cfg = None then [] else map (\<lambda>d. d\<lparr>xd_options := 0\<rparr>) (filter (relayable um) ds))"

lemma relay_packet_rejected:
  assumes "in_memory (ry_umem (fst s)) d" "\<not> relayable (ry_umem (fst s)) d"
  shows "relay_packet cfg d s =
    Inr (give_back (xd_addr d) ((fst s)\<lparr>ry_total_packets := ry_total_packets (fst s) + 1\<rparr>, snd s))"
proof -
  obtain p where p: "map_frame (ry_umem (fst s)) (desc_frame d) = Some p" "length p = unat (xd_len d)"
    using in_memory_frame assms(1) by blast
  show ?thesis
    using p assms(2)
    by (auto simp: relay_packet_def relayable_def Let_def get_def header_sizes HEADER_SIZE_eq
        desc_frame_def split: prod.splits)
qed

lemma relay_packet_accepted:
  assumes "relayable (ry_umem (fst s)) d" "map_frame (ry_umem (fst s)) (desc_frame d) = Some p"
    "length p = unat (xd_len d)"
  shows "relay_packet cfg d s =
    (let s = ((fst s)\<lparr>ry_total_packets := ry_total_packets (fst s) + 1\<rparr>, snd s) in
     rbind (case relay_dest cfg of
              None \<Rightarrow> Inr (give_back (xd_addr d) s)
            | Some (ip, port, mac) \<Rightarrow> relay_forward cfg ip port mac (xd_addr d) p s)
       (\<lambda>s. Inr (batch_commit s)))"
  using assms
  by (auto simp: relay_packet_def relayable_def Let_def get_def header_sizes HEADER_SIZE_eq
      desc_frame_def relay_dest_def split: prod.splits option.splits)

lemma relay_packet_ok:
  assumes mem: "in_memory (ry_umem (fst s)) d" and b: "ry_batch_count (fst s) < 32"
  obtains s' fs ts where "relay_packet cfg d s = Inr s'" "relayed [d] fs ts s s'"
    "ry_batch_count (fst s') = (ry_batch_count (fst s) + of_bool (relayable (ry_umem (fst s)) d)) mod 32"
    "map_frame (ry_umem (fst s')) (desc_frame d) = frame_after cfg (ry_umem (fst s)) d"
    "\<And>f. apart (desc_frame d) f \<Longrightarrow> map_frame (ry_umem (fst s')) f = map_frame (ry_umem (fst s)) f"
    "length (forwards cfg (ry_umem (fst s)) [d]) \<le> tx_available (ry_tx (fst s)) \<Longrightarrow>
       ts = forwards cfg (ry_umem (fst s)) [d]"
    "\<not> relayable (ry_umem (fst s)) d \<Longrightarrow> published (snd s') = published (snd s)"
proof -
  let ?um = "ry_umem (fst s)"
  let ?s = "((fst s)\<lparr>ry_total_packets := ry_total_packets (fst s) + 1\<rparr>, snd s)"
  have r0: "relayed [] [] [] s ?s" using relayed_refl [of s] by (simp add: relayed_def)
  obtain p where p: "map_frame ?um (desc_frame d) = Some p" "length p = unat (xd_len d)"
    using in_memory_frame mem by blast
  obtain g where g: "give_back (xd_addr d) ?s = g" by blast
  note gf = give_back_facts [OF g]
  obtain gfs where gr: "relayed [d] gfs [] s g" using give_back_relayed [OF g] relayed_trans [OF r0] by fastforce
  show thesis
  proof (cases "relayable ?um d")
    case False
    then show thesis
      using that [of g gfs "[]"] relay_packet_rejected [OF mem False] g gr gf b
      by (auto simp: frame_after_def forwards_def split: option.splits)
  next
    case True
    note eq = relay_packet_accepted [OF True p, of cfg]
    show thesis
    proof (cases "relay_dest cfg")
      case None
      note bc = batch_commit_facts [of g, OF refl]
      show thesis
        using that [of "batch_commit g" gfs "[]"] relayed_trans [OF gr bc(1)] bc(2,3) b gf None True eq g
        by (simp add: frame_after_def forwards_def Let_def)
    next
      case (Some a)
      obtain ip port mac where a: "a = (ip, port, mac)" by (cases a)
      have l: "42 \<le> unat (xd_len d)" using True by (simp add: relayable_def HEADER_SIZE_eq)
      obtain t fs ts where t: "relay_forward cfg ip port mac (xd_addr d) p ?s = Inr t" "relayed [d] fs ts ?s t"
        "ry_batch_count (fst t) = ry_batch_count (fst s)"
        "map_frame (ry_umem (fst t)) (desc_frame d) = Some (relayed_bytes cfg ip port mac p)"
        "\<And>f. apart (desc_frame d) f \<Longrightarrow> map_frame (ry_umem (fst t)) f = map_frame ?um f"
        "tx_available (ry_tx (fst s)) > 0 \<Longrightarrow> ts = [d\<lparr>xd_options := 0\<rparr>]"
        by (rule relay_forward_ok [of ?s d p cfg ip port mac, simplified, OF p l]) (rule that)
      note bc = batch_commit_facts [of t, OF refl]
      have "relayed [d] fs ts s t" using relayed_trans [OF r0 t(2)] by simp
      then show thesis
        using that [of "batch_commit t" fs ts] relayed_trans [OF _ bc(1)] bc(2,3) b t p True eq a Some
        by (simp add: frame_after_def forwards_def Let_def)
    qed
  qed
qed

section \<open>What happens to a batch\<close>

abbreviation apart_descs :: "xdp_desc list \<Rightarrow> bool" where
  "apart_descs ds \<equiv> sorted_wrt (\<lambda>d e. apart (desc_frame d) (desc_frame e)) ds"

abbreviation rx_pending :: "relay_state \<times> xsk_mem \<Rightarrow> xdp_desc list" where
  "rx_pending s \<equiv> ring_pending (rr_size (ry_rx (fst s))) (rr_consumer (ry_rx (fst s))) (xm_rx (snd s))"

lemma same_frame_after:
  "map_frame um' (desc_frame d) = map_frame um (desc_frame d) \<Longrightarrow>
     relayable um' d = relayable um d \<and> frame_after cfg um' d = frame_after cfg um d"
  by (simp only: relayable_def frame_after_def)

text \<open>What relaying a list of packets that share no byte should do to the frames.\<close>

definition relayed_contents :: "relay_cfg \<Rightarrow> xdp_desc list \<Rightarrow> slice_umem \<Rightarrow> slice_umem \<Rightarrow> bool" where
  "relayed_contents cfg ds um um' \<longleftrightarrow>
     (\<forall>d\<in>set ds. map_frame um' (desc_frame d) = frame_after cfg um d) \<and>
     (\<forall>f. (\<forall>d\<in>set ds. apart (desc_frame d) f) \<longrightarrow> map_frame um' f = map_frame um f)"

lemma relayed_contents_Cons:
  assumes "map_frame um1 (desc_frame d) = frame_after cfg um d"
    and "\<And>f. apart (desc_frame d) f \<Longrightarrow> map_frame um1 f = map_frame um f"
    and "relayed_contents cfg ds um1 um2" "apart_descs (d # ds)"
  shows "relayed_contents cfg (d # ds) um um2"
proof -
  have "map_frame um2 (desc_frame d) = map_frame um1 (desc_frame d)"
    using assms(3,4) by (auto simp: relayed_contents_def apart_sym [of _ "desc_frame d"])
  moreover have "frame_after cfg um1 e = frame_after cfg um e" if "e \<in> set ds" for e
    using same_frame_after [of um1 e um cfg] assms(2,4) that by simp
  ultimately show ?thesis using assms(1-3) by (auto simp: relayed_contents_def)
qed

definition batch_relayed ::
  "relay_cfg \<Rightarrow> xdp_desc list \<Rightarrow> xdp_desc list \<Rightarrow> relay_state \<times> xsk_mem \<Rightarrow> relay_state \<times> xsk_mem \<Rightarrow> bool" where
  "batch_relayed cfg ds ts s s' \<longleftrightarrow>
     relayed_contents cfg ds (ry_umem (fst s)) (ry_umem (fst s')) \<and>
     ry_batch_count (fst s') =
       (ry_batch_count (fst s) + length (filter (relayable (ry_umem (fst s))) ds)) mod 32 \<and>
     (length (forwards cfg (ry_umem (fst s)) ds) \<le> tx_available (ry_tx (fst s)) \<longrightarrow>
        ts = forwards cfg (ry_umem (fst s)) ds) \<and>
     (filter (relayable (ry_umem (fst s))) ds = [] \<longrightarrow> published (snd s') = published (snd s))"

lemma forwards_Cons: "forwards cfg um (d # ds) = forwards cfg um [d] @ forwards cfg um ds"
  by (simp add: forwards_def)

lemma batch_relayed_Cons:
  assumes "relayed [d] fs ts s t" "batch_relayed cfg ds ts' t u" "apart_descs (d # ds)"
    and "ry_batch_count (fst t) = (ry_batch_count (fst s) + of_bool (relayable (ry_umem (fst s)) d)) mod 32"
    and "map_frame (ry_umem (fst t)) (desc_frame d) = frame_after cfg (ry_umem (fst s)) d"
    and "\<And>f. apart (desc_frame d) f \<Longrightarrow> map_frame (ry_umem (fst t)) f = map_frame (ry_umem (fst s)) f"
    and "length (forwards cfg (ry_umem (fst s)) [d]) \<le> tx_available (ry_tx (fst s)) \<Longrightarrow>
       ts = forwards cfg (ry_umem (fst s)) [d]"
    and "\<not> relayable (ry_umem (fst s)) d \<Longrightarrow> published (snd t) = published (snd s)"
  shows "batch_relayed cfg (d # ds) (ts @ ts') s u"
proof -
  let ?um = "ry_umem (fst s)"
  have f: "filter (relayable (ry_umem (fst t))) ds = filter (relayable ?um) ds"
    using assms(3,6) by (intro filter_cong) (auto simp: same_frame_after [of "ry_umem (fst t)" _ ?um])
  have fw: "forwards cfg (ry_umem (fst t)) ds = forwards cfg ?um ds" by (simp add: forwards_def f)
  have av: "tx_available (ry_tx (fst t)) + length ts = tx_available (ry_tx (fst s))"
    using assms(1) tx_appended_available by (auto simp: relayed_def)
  have "ts @ ts' = forwards cfg ?um (d # ds)"
    if "length (forwards cfg ?um (d # ds)) \<le> tx_available (ry_tx (fst s))"
    using that assms(2,7) av unfolding forwards_Cons [of cfg ?um d ds] by (auto simp: batch_relayed_def fw)
  then show ?thesis
    using relayed_contents_Cons [OF assms(5,6) _ assms(3), of "ry_umem (fst u)"] assms(2,4,8)
    by (auto simp: batch_relayed_def f mod_simps)
qed

lemma relay_rx_read:
  assumes "rx_pending s = d # ds"
  shows "\<exists>rx. rx_read (ry_rx (fst s)) (xm_rx (snd s)) = (Some d, rx) \<and>
    ring_pending (rr_size rx) (rr_consumer rx) (xm_rx (snd s)) = ds \<and> rr_size rx = rr_size (ry_rx (fst s)) \<and>
    rc_cached_producer (rr_consumer rx) = rc_cached_producer (rr_consumer (ry_rx (fst s)))"
proof -
  have "rc_cached_consumer (rr_consumer (ry_rx (fst s))) \<noteq> rc_cached_producer (rr_consumer (ry_rx (fst s)))"
    using assms ring_pending_Nil by (metis list.distinct(1))
  then show ?thesis using assms by (auto simp: rx_read_def consume_def ring_pending_Cons)
qed

lemma ring_pending_desc: "rm_desc m' = rm_desc m \<Longrightarrow> ring_pending sz c m' = ring_pending sz c m"
  by (simp add: ring_pending_def)

lemma ring_pending_eq_Nil: "ring_pending sz c m = [] \<Longrightarrow> rc_cached_consumer c = rc_cached_producer c"
  using ring_pending_Cons by (metis list.distinct(1))

text \<open>
  Relaying everything that is pending: it ends, every frame is accounted for, and on packets
  that share no byte the frames end up as they should.
\<close>

lemma relay_rx_ok:
  assumes "rx_pending s = ds" "\<forall>d\<in>set ds. in_memory (ry_umem (fst s)) d" "ry_batch_count (fst s) < 32"
  shows "\<exists>s' fs ts. relay_rx cfg s = Inr s' \<and> relayed ds fs ts s s' \<and>
    rc_cached_consumer (rr_consumer (ry_rx (fst s'))) = rc_cached_producer (rr_consumer (ry_rx (fst s))) \<and>
    (apart_descs ds \<longrightarrow> batch_relayed cfg ds ts s s')"
  using assms
proof (induction ds arbitrary: s)
  case Nil
  then have e: "rc_cached_consumer (rr_consumer (ry_rx (fst s))) = rc_cached_producer (rr_consumer (ry_rx (fst s)))"
    by (intro ring_pending_eq_Nil)
  then have r: "relay_rx cfg s = Inr s" by (subst relay_rx.simps) (simp add: rx_read_def consume_def)
  show ?case
    by (rule exI [of _ s], rule exI [of _ "[]"], rule exI [of _ "[]"])
      (use r e Nil.prems(3) relayed_refl in \<open>simp add: batch_relayed_def relayed_contents_def forwards_def\<close>)
next
  case (Cons d ds)
  obtain rx where rx: "rx_read (ry_rx (fst s)) (xm_rx (snd s)) = (Some d, rx)"
    "ring_pending (rr_size rx) (rr_consumer rx) (xm_rx (snd s)) = ds"
    "rc_cached_producer (rr_consumer rx) = rc_cached_producer (rr_consumer (ry_rx (fst s)))"
    using relay_rx_read [OF Cons.prems(1)] by blast
  define s1 where "s1 = ((fst s)\<lparr>ry_rx := rx\<rparr>, snd s)"
  have s1: "ry_umem (fst s1) = ry_umem (fst s)" "ry_batch_count (fst s1) = ry_batch_count (fst s)"
    "ry_tx (fst s1) = ry_tx (fst s)" "snd s1 = snd s" "ry_rx (fst s1) = rx" by (simp_all add: s1_def)
  have r1: "relayed [] [] [] s s1" using relayed_refl [of s] by (simp add: relayed_def s1_def)
  obtain t fs ts where t: "relay_packet cfg d s1 = Inr t" "relayed [d] fs ts s1 t"
      "ry_batch_count (fst t) = (ry_batch_count (fst s) + of_bool (relayable (ry_umem (fst s)) d)) mod 32"
      "map_frame (ry_umem (fst t)) (desc_frame d) = frame_after cfg (ry_umem (fst s)) d"
      "\<And>f. apart (desc_frame d) f \<Longrightarrow> map_frame (ry_umem (fst t)) f = map_frame (ry_umem (fst s)) f"
      "length (forwards cfg (ry_umem (fst s)) [d]) \<le> tx_available (ry_tx (fst s)) \<Longrightarrow>
         ts = forwards cfg (ry_umem (fst s)) [d]"
      "\<not> relayable (ry_umem (fst s)) d \<Longrightarrow> published (snd t) = published (snd s)"
    by (rule relay_packet_ok [of s1 d cfg, unfolded s1]) (use Cons.prems(2,3) that in auto)
  note r2 = relayed_trans [OF r1 t(2), simplified]
  have rt: "ry_rx (fst t) = rx" using relay_packet_rx [OF t(1)] s1(5) by simp
  have "rx_pending t = ds"
    using rx(2) t(2) rt by (simp add: relayed_def s1(4) ring_pending_desc [of "xm_rx (snd t)" "xm_rx (snd s)"])
  moreover have "\<forall>d\<in>set ds. in_memory (ry_umem (fst t)) d"
    using Cons.prems(2) r2 by (simp add: in_memory_def relayed_def)
  ultimately obtain u fs' ts' where u: "relay_rx cfg t = Inr u" "relayed ds fs' ts' t u"
      "rc_cached_consumer (rr_consumer (ry_rx (fst u))) = rc_cached_producer (rr_consumer (ry_rx (fst s)))"
      "apart_descs ds \<Longrightarrow> batch_relayed cfg ds ts' t u"
    using Cons.IH [of t] t(3) rt rx(3) by auto
  have "relay_rx cfg s = Inr u" using rx(1) t(1) u(1) by (simp add: relay_rx.simps [of cfg s] s1_def)
  then show ?case
    using relayed_trans [OF r2 u(2)] u(3,4) batch_relayed_Cons [OF r2 _ _ t(3-7)]
    by (intro exI [of _ u] exI [of _ "fs @ fs'"] exI [of _ "ts @ ts'"]) simp
qed

section \<open>What an iteration does\<close>

text \<open>What the kernel has published by the time an iteration syncs: received packets, completed frames.\<close>

definition relay_received :: "relay_state \<Rightarrow> xsk_mem \<Rightarrow> xdp_desc list" where
  "relay_received st mem =
     ring_pending (rr_size (ry_rx st))
       ((rr_consumer (ry_rx st))\<lparr>rc_cached_producer := rm_producer (xm_rx mem)\<rparr>) (xm_rx mem)"

definition relay_completed :: "relay_state \<Rightarrow> xsk_mem \<Rightarrow> frame_offset list" where
  "relay_completed st mem =
     ring_pending (tc_size (ry_completion st))
       ((tc_consumer (ry_completion st))\<lparr>rc_cached_producer := rm_producer (xm_completion mem)\<rparr>) (xm_completion mem)"

lemma relay_begin:
  assumes "relay_release_completed (relay_sync (st, mem)) = (st1, mem1)"
  shows "mem1 = mem" "ry_umem st1 = fold release (relay_completed st mem) (ry_umem st)"
    "rx_pending (st1, mem1) = relay_received st mem" "ry_batch_count st1 = ry_batch_count st"
    "fill_sync False (ry_fill st) (xm_fill mem) = (ry_fill st1, xm_fill mem)"
    "tx_sync False (ry_tx st) (xm_tx mem) = (ry_tx st1, xm_tx mem)"
    "rc_cached_producer (rr_consumer (ry_rx st1)) = rm_producer (xm_rx mem)"
  using assms
  by (auto simp: relay_release_completed_def relay_sync_def Let_def drain_completion_eq relay_completed_def
      relay_received_def rx_sync_def tx_sync_def fill_sync_def completion_sync_def consumer_sync_def producer_sync_def)

lemma relay_finish:
  assumes "relay_refill (st, mem) = (st1, mem1)" "relay_final_commit (st1, mem1) = (st2, mem2)"
    and "owned (ry_umem st) K"
  obtains fs where "fill_appended fs (ry_fill st, xm_fill mem) (ry_fill st2, xm_fill mem2)"
    "tx_appended [] (ry_tx st, xm_tx mem) (ry_tx st2, xm_tx mem2)"
    "owned (ry_umem st2) (K + mset (map (frame_index (ry_umem st)) fs))"
    "map_frame (ry_umem st2) = map_frame (ry_umem st)" "ry_rx st2 = ry_rx st" "ry_batch_count st2 = 0"
    "fill_available (ry_fill st2) = 0 \<or> available_frames (ry_umem st2) = []"
    "published mem2 = (if ry_batch_count st = 0 then published mem
       else (rc_cached_consumer (rr_consumer (ry_rx st2)), rp_cached_producer (tr_producer (ry_tx st2)),
             rp_cached_producer (rf_producer (ry_fill st2))))"
proof -
  obtain um fill fm where r: "refill (ry_umem st) (ry_fill st) (xm_fill mem) = (um, fill, fm)" by (metis prod_cases3)
  have 1: "st1 = st\<lparr>ry_umem := um, ry_fill := fill\<rparr>" "mem1 = mem\<lparr>xm_fill := fm\<rparr>"
    using assms(1) r by (auto simp: relay_refill_def)
  have 2: "st2 = st1\<lparr>ry_batch_count := 0\<rparr>" "mem2 = (if ry_batch_count st = 0 then mem1 else relay_commit st1 mem1)"
    using assms(2) by (auto simp: relay_final_commit_def 1 split: if_splits)
  obtain fs where fs: "fill_appended fs (ry_fill st, xm_fill mem) (fill, fm)"
    "owned um (K + mset (map (frame_index (ry_umem st)) fs))" "buffer um = buffer (ry_umem st)"
    "fill_available fill = 0 \<or> available_frames um = []" "rm_producer fm = rm_producer (xm_fill mem)"
    using refill_owned [OF r assms(3)] by blast
  show thesis
    by (rule that [of fs])
      (use fs in \<open>simp_all add: 1 2 relay_commit_def fill_commit_appended tx_commit_appended map_frame_def
        fun_eq_iff published_def rx_commit_def consumer_commit_def tx_commit_def fill_commit_def producer_commit_def\<close>,
       use fs(1) fill_commit_appended [OF fs(1)] tx_commit_appended [OF ring_appended_refl(2)] in
        \<open>auto simp: fill_commit_def tx_commit_def producer_commit_def\<close>)
qed

lemma same_contents:
  assumes "map_frame um' = map_frame um"
  shows "relayable um' = relayable um" "forwards cfg um' = forwards cfg um" "frame_after cfg um' = frame_after cfg um"
    "relayed_contents cfg ds um' = relayed_contents cfg ds um"
    "(\<And>v. relayed_contents cfg ds v um' = relayed_contents cfg ds v um)"
proof -
  show r: "relayable um' = relayable um" using assms by (simp add: relayable_def fun_eq_iff)
  show "forwards cfg um' = forwards cfg um" by (rule ext) (simp only: forwards_def r)
  show "frame_after cfg um' = frame_after cfg um" by (rule ext) (simp only: frame_after_def assms r)
  then show "relayed_contents cfg ds um' = relayed_contents cfg ds um"
    "(\<And>v. relayed_contents cfg ds v um' = relayed_contents cfg ds v um)"
    by (simp_all add: relayed_contents_def assms fun_eq_iff [of "relayed_contents cfg ds um'"])
qed

lemma relay_iteration_ok:
  assumes own: "owned (ry_umem st) K" and b: "ry_batch_count st = 0"
    and ker: "mset (map (frame_index (ry_umem st)) (relay_completed st mem))
        + desc_indices (ry_umem st) (relay_received st mem) \<subseteq># K"
    and mem: "\<forall>d\<in>set (relay_received st mem). in_memory (ry_umem st) d"
  obtains st' mem' fs ts where "relay_iteration cfg (st, mem) = Inr (st', mem')"
    "owned (ry_umem st') (K - mset (map (frame_index (ry_umem st)) (relay_completed st mem))
       - desc_indices (ry_umem st) (relay_received st mem)
       + mset (map (frame_index (ry_umem st)) fs) + desc_indices (ry_umem st) ts)"
    "fill_appended fs (fill_sync False (ry_fill st) (xm_fill mem)) (ry_fill st', xm_fill mem')"
    "tx_appended ts (tx_sync False (ry_tx st) (xm_tx mem)) (ry_tx st', xm_tx mem')"
    "rc_cached_consumer (rr_consumer (ry_rx st')) = rm_producer (xm_rx mem)" "ry_batch_count st' = 0"
    "fill_available (ry_fill st') = 0 \<or> available_frames (ry_umem st') = []"
    "apart_descs (relay_received st mem) \<Longrightarrow>
       relayed_contents cfg (relay_received st mem) (ry_umem st) (ry_umem st') \<and>
       (length (forwards cfg (ry_umem st) (relay_received st mem))
          \<le> tx_available (fst (tx_sync False (ry_tx st) (xm_tx mem))) \<longrightarrow>
        ts = forwards cfg (ry_umem st) (relay_received st mem)) \<and>
       (filter (relayable (ry_umem st)) (relay_received st mem) = [] \<longrightarrow> published mem' = published mem) \<and>
       (length (filter (relayable (ry_umem st)) (relay_received st mem)) mod 32 \<noteq> 0 \<longrightarrow>
        published mem' = (rm_producer (xm_rx mem), rp_cached_producer (tr_producer (ry_tx st')),
          rp_cached_producer (rf_producer (ry_fill st'))))"
proof -
  let ?um = "ry_umem st" and ?ds = "relay_received st mem" and ?cs = "relay_completed st mem"
  let ?i = "frame_index ?um"
  define R where "R = K - mset (map ?i ?cs) - desc_indices ?um ?ds"
  have K: "K = mset (map ?i ?cs) + (desc_indices ?um ?ds + R)"
    using ker by (metis R_def add.assoc diff_diff_add_mset subset_mset.add_diff_inverse)
  obtain st1 mem1 where s1: "relay_release_completed (relay_sync (st, mem)) = (st1, mem1)" by fastforce
  note be = relay_begin [OF s1]
  have "owned (ry_umem st1) (desc_indices ?um ?ds + R)" and fi: "frame_index (ry_umem st1) = ?i"
    and bu: "buffer (ry_umem st1) = buffer ?um"
    using release_all_owned [OF own, of ?cs] by (simp_all add: be(2) K)
  then have o1: "owned (ry_umem st1) (desc_indices (ry_umem st1) ?ds + R)" by simp
  have mf: "map_frame (ry_umem st1) = map_frame ?um" by (simp add: bu map_frame_def fun_eq_iff)
  have "\<forall>d\<in>set ?ds. in_memory (ry_umem st1) d" using mem by (simp add: in_memory_def bu)
  then obtain st2 mem2 fs ts where s2: "relay_rx cfg (st1, mem1) = Inr (st2, mem2)"
    "relayed ?ds fs ts (st1, mem1) (st2, mem2)"
    "rc_cached_consumer (rr_consumer (ry_rx st2)) = rm_producer (xm_rx mem)"
    "apart_descs ?ds \<longrightarrow> batch_relayed cfg ?ds ts (st1, mem1) (st2, mem2)"
    using relay_rx_ok [OF be(3), of cfg] be(4,7) b by auto
  have o2: "owned (ry_umem st2) (mset (map ?i fs) + desc_indices ?um ts + R)" and fi2: "frame_index (ry_umem st2) = ?i"
    using s2(2) o1 fi by (auto simp: relayed_def)
  obtain st3 mem3 where s3: "relay_refill (st2, mem2) = (st3, mem3)" by fastforce
  obtain st4 mem4 where s4: "relay_final_commit (st3, mem3) = (st4, mem4)" by fastforce
  have it: "relay_iteration cfg (st, mem) = Inr (st4, mem4)" by (simp add: relay_iteration_def s1 s2(1) s3 s4)
  obtain fs' where f: "fill_appended fs' (ry_fill st2, xm_fill mem2) (ry_fill st4, xm_fill mem4)"
    "tx_appended [] (ry_tx st2, xm_tx mem2) (ry_tx st4, xm_tx mem4)"
    "owned (ry_umem st4) (mset (map ?i fs) + desc_indices ?um ts + R + mset (map (frame_index (ry_umem st2)) fs'))"
    "map_frame (ry_umem st4) = map_frame (ry_umem st2)" "ry_rx st4 = ry_rx st2" "ry_batch_count st4 = 0"
    "fill_available (ry_fill st4) = 0 \<or> available_frames (ry_umem st4) = []"
    "published mem4 = (if ry_batch_count st2 = 0 then published mem2
       else (rc_cached_consumer (rr_consumer (ry_rx st4)), rp_cached_producer (tr_producer (ry_tx st4)),
             rp_cached_producer (rf_producer (ry_fill st4))))"
    by (rule relay_finish [OF s3 s4 o2]) (rule that)
  have 1: "owned (ry_umem st4) (K - mset (map ?i ?cs) - desc_indices ?um ?ds + mset (map ?i (fs @ fs')) + desc_indices ?um ts)"
    using f(3) by (simp add: fi2 R_def ac_simps)
  have 2: "fill_appended (fs @ fs') (fill_sync False (ry_fill st) (xm_fill mem)) (ry_fill st4, xm_fill mem4)"
    using s2(2) fill_appended_trans [OF _ f(1)] by (simp add: relayed_def be(1,5))
  have 3: "tx_appended ts (tx_sync False (ry_tx st) (xm_tx mem)) (ry_tx st4, xm_tx mem4)"
    using s2(2) tx_appended_trans [OF _ f(2)] by (fastforce simp: relayed_def be(1,6))
  show thesis
    by (rule that [OF it 1 2 3])
      (use s2(3,4) f(5-8) b in \<open>simp_all add: batch_relayed_def be(1,4-7) same_contents [OF mf] same_contents [OF f(4)]\<close>)
qed

text \<open>
  C20. An iteration of the relay loop ends without a panic and without leaving the frame memory,
  and loses no frame and duplicates none. Suppose the allocator and the rest of the system own
  every frame once, and the kernel reports only frames it was given, as completed or as
  received, with descriptors inside the memory. Then afterwards the allocator and the rest again
  own every frame once: the completed and received frames are taken over, and exactly the frames
  appended to the fill ring and to the transmit ring are given away. Everything received has been
  read, and the fill ring is full or the allocator empty.
\<close>

theorem relay_iteration_conserves_frames:
  assumes "owned (ry_umem st) K" "ry_batch_count st = 0"
    and "mset (map (frame_index (ry_umem st)) (relay_completed st mem))
        + desc_indices (ry_umem st) (relay_received st mem) \<subseteq># K"
    and "\<forall>d\<in>set (relay_received st mem). in_memory (ry_umem st) d"
  shows "\<exists>st' mem' fs ts. relay_iteration cfg (st, mem) = Inr (st', mem') \<and>
    owned (ry_umem st') (K - mset (map (frame_index (ry_umem st)) (relay_completed st mem))
       - desc_indices (ry_umem st) (relay_received st mem)
       + mset (map (frame_index (ry_umem st)) fs) + desc_indices (ry_umem st) ts) \<and>
    fill_appended fs (fill_sync False (ry_fill st) (xm_fill mem)) (ry_fill st', xm_fill mem') \<and>
    tx_appended ts (tx_sync False (ry_tx st) (xm_tx mem)) (ry_tx st', xm_tx mem') \<and>
    rc_cached_consumer (rr_consumer (ry_rx st')) = rm_producer (xm_rx mem) \<and> ry_batch_count st' = 0 \<and>
    (fill_available (ry_fill st') = 0 \<or> available_frames (ry_umem st') = [])"
  by (rule relay_iteration_ok [OF assms, of cfg]) blast

text \<open>
  C21. Forwarding: when the destination is known, the transmit ring has room and no two of the
  received descriptors overlap, an iteration queues exactly the received packets of at least 442
  bytes whose byte 23 (the protocol field of an untagged IPv4 frame) is 17, in the order received.
  Each of their frames then holds the new Ethernet, IPv4 and UDP headers for the destination
  followed by the bytes the packet had from 42 on; the frames of the other received packets keep
  their bytes, and so does all memory outside the received packets. The EtherType and the length
  of the IP header play no role in which packets are relayed.
\<close>

theorem relay_forwards_udp:
  assumes "owned (ry_umem st) K" "ry_batch_count st = 0"
    and "mset (map (frame_index (ry_umem st)) (relay_completed st mem))
        + desc_indices (ry_umem st) (relay_received st mem) \<subseteq># K"
    and "\<forall>d\<in>set (relay_received st mem). in_memory (ry_umem st) d"
    and "apart_descs (relay_received st mem)" "relay_dest cfg = Some (ip, port, mac)"
    and "length (filter (relayable (ry_umem st)) (relay_received st mem))
        \<le> tx_available (fst (tx_sync False (ry_tx st) (xm_tx mem)))"
  shows "\<exists>st' mem'. relay_iteration cfg (st, mem) = Inr (st', mem') \<and>
    tx_appended (map (\<lambda>d. d\<lparr>xd_options := 0\<rparr>) (filter (relayable (ry_umem st)) (relay_received st mem)))
      (tx_sync False (ry_tx st) (xm_tx mem)) (ry_tx st', xm_tx mem') \<and>
    (\<forall>d\<in>set (relay_received st mem). \<exists>p. map_frame (ry_umem st) (desc_frame d) = Some p \<and>
       map_frame (ry_umem st') (desc_frame d) =
         Some (if relayable (ry_umem st) d then relayed_bytes cfg ip port mac p else p)) \<and>
    (\<forall>f. (\<forall>d\<in>set (relay_received st mem). apart (desc_frame d) f) \<longrightarrow>
       map_frame (ry_umem st') f = map_frame (ry_umem st) f)"
proof -
  have fw: "forwards cfg (ry_umem st) (relay_received st mem) =
      map (\<lambda>d. d\<lparr>xd_options := 0\<rparr>) (filter (relayable (ry_umem st)) (relay_received st mem))"
    by (simp add: forwards_def assms(6))
  obtain st' mem' ts where it: "relay_iteration cfg (st, mem) = Inr (st', mem')"
    "tx_appended ts (tx_sync False (ry_tx st) (xm_tx mem)) (ry_tx st', xm_tx mem')"
    "relayed_contents cfg (relay_received st mem) (ry_umem st) (ry_umem st')"
    "ts = forwards cfg (ry_umem st) (relay_received st mem)"
    by (rule relay_iteration_ok [OF assms(1-4), of cfg]) (rule that, assumption+, use assms(5,7) fw in simp_all)
  have "\<exists>p. map_frame (ry_umem st) (desc_frame d) = Some p \<and> map_frame (ry_umem st') (desc_frame d) =
      Some (if relayable (ry_umem st) d then relayed_bytes cfg ip port mac p else p)"
    if d: "d \<in> set (relay_received st mem)" for d
  proof -
    obtain p where "map_frame (ry_umem st) (desc_frame d) = Some p" using assms(4) d in_memory_frame by blast
    then show ?thesis using it(3) d by (simp add: relayed_contents_def frame_after_def assms(6))
  qed
  moreover have "map_frame (ry_umem st') f = map_frame (ry_umem st) f"
    if "\<forall>d\<in>set (relay_received st mem). apart (desc_frame d) f" for f
    using it(3) that by (simp add: relayed_contents_def)
  ultimately show ?thesis using it(1,2,4) fw by auto
qed

text \<open>
  C22. What an iteration makes visible to the kernel depends only on how many relayable packets
  it received. If their number is not a multiple of 32, the receive ring is acknowledged and
  everything written to the transmit and the fill ring is published. If there are none (only
  short or non-UDP packets arrived) nothing is: the receive ring is not acknowledged and no
  frame goes back to the kernel, although the packets were all read and their frames rewritten
  to the fill ring.
\<close>

theorem relay_publishes:
  assumes "owned (ry_umem st) K" "ry_batch_count st = 0"
    and "mset (map (frame_index (ry_umem st)) (relay_completed st mem))
        + desc_indices (ry_umem st) (relay_received st mem) \<subseteq># K"
    and "\<forall>d\<in>set (relay_received st mem). in_memory (ry_umem st) d"
    and "apart_descs (relay_received st mem)"
    and "n = length (filter (relayable (ry_umem st)) (relay_received st mem))"
  shows "\<exists>st' mem'. relay_iteration cfg (st, mem) = Inr (st', mem') \<and>
    (n mod 32 \<noteq> 0 \<longrightarrow> published mem' =
       (rm_producer (xm_rx mem), rp_cached_producer (tr_producer (ry_tx st')),
        rp_cached_producer (rf_producer (ry_fill st')))) \<and>
    (n = 0 \<longrightarrow> published mem' = published mem)"
  by (rule relay_iteration_ok [OF assms(1-4), of cfg]) (rule exI, rule exI, rule conjI, assumption, use assms(5,6) in simp)

text \<open>Two frames of 512 bytes; the kernel owns the first and delivers a packet in it.\<close>

definition relay_example :: "u32 \<Rightarrow> relay_state \<times> xsk_mem" where
  "relay_example len =
     (let um = \<lparr>rm_producer = 1, rm_consumer = 1, rm_desc = \<lambda>_. 0, rm_flags = 0\<rparr>;
          dm = \<lparr>rm_producer = 1, rm_consumer = 0,
                rm_desc = \<lambda>_. \<lparr>xd_addr = 0, xd_len = len, xd_options = 0\<rparr>, rm_flags = 0\<rparr>;
          tm = dm\<lparr>rm_producer := 0\<rparr> in
      (\<lparr>ry_umem = \<lparr>buffer = replicate 1024 17, frame_size = 512, available_frames = [1], capacity = 2\<rparr>,
        ry_fill = \<lparr>rf_producer = producer_new um 2, rf_size = 2, rf_fd = 3\<rparr>,
        ry_rx = \<lparr>rr_consumer = \<lparr>rc_cached_producer = 0, rc_cached_consumer = 0\<rparr>, rr_size = 2, rr_fd = 3\<rparr>,
        ry_tx = \<lparr>tr_producer = producer_new tm 2, tr_size = 2, tr_fd = 3\<rparr>,
        ry_completion = \<lparr>tc_consumer = consumer_new um, tc_size = 2\<rparr>,
        ry_batch_count = 0, ry_total_packets = 0, ry_wakes = 0\<rparr>,
       \<lparr>xm_completion = um, xm_fill = um, xm_tx = tm, xm_rx = dm\<rparr>))"

abbreviation relay_example_cfg :: relay_cfg where
  "relay_example_cfg \<equiv> \<lparr>ry_src_mac = MacAddress 1 2 3 4 5 6, ry_src_ip = Ipv4Addr 10 0 0 1,
     ry_dest_ip = Some (Ipv4Addr 10 0 0 2), ry_dest_port = Some 8001,
     ry_dest_mac = Some (MacAddress 7 8 9 10 11 12)\<rparr>"

lemma relay_example_facts:
  "owned (ry_umem (fst (relay_example len))) {#0#}" "ry_batch_count (fst (relay_example len)) = 0"
  "relay_completed (fst (relay_example len)) (snd (relay_example len)) = []"
  "relay_received (fst (relay_example len)) (snd (relay_example len)) =
     [\<lparr>xd_addr = 0, xd_len = len, xd_options = 0\<rparr>]"
  "frame_index (ry_umem (fst (relay_example len))) 0 = 0"
  "tx_available (fst (tx_sync False (ry_tx (fst (relay_example len))) (xm_tx (snd (relay_example len))))) = 2"
proof -
  have "{..<2 :: nat} = {0, 1}" by auto
  then have "{i :: u64. i < 2} = {0, 1}" by (simp add: words_below)
  then show "owned (ry_umem (fst (relay_example len))) {#0#}" by (simp add: owned_def relay_example_def Let_def)
qed (simp_all add: relay_example_def Let_def relay_completed_def relay_received_def ring_pending_def
    consumer_available_def consumer_new_def frame_index_def tx_sync_def producer_sync_def tx_available_def
    producer_available_def producer_new_def saturating_sub_def)

lemma relay_example_packet:
  "unat len \<le> 512 \<Longrightarrow> in_memory (ry_umem (fst (relay_example len))) \<lparr>xd_addr = 0, xd_len = len, xd_options = 0\<rparr>"
  "unat len \<le> 512 \<Longrightarrow> relayable (ry_umem (fst (relay_example len))) \<lparr>xd_addr = 0, xd_len = len, xd_options = 0\<rparr>
     \<longleftrightarrow> 442 \<le> unat len"
  by (auto simp: in_memory_def relay_example_def Let_def relayable_def map_frame_def desc_frame_def
      from_offset_def subslice_def unat_ucast_up HEADER_SIZE_eq)

theorem relay_iteration_conserves_frames_witness:
  "\<exists>st' mem' fs ts. relay_iteration relay_example_cfg (relay_example 442) = Inr (st', mem') \<and>
    owned (ry_umem st') (mset (map (frame_index (ry_umem (fst (relay_example 442)))) fs)
      + desc_indices (ry_umem (fst (relay_example 442))) ts) \<and>
    rc_cached_consumer (rr_consumer (ry_rx st')) = rm_producer (xm_rx (snd (relay_example 442)))"
  using relay_iteration_conserves_frames [of "fst (relay_example 442)" "{#0#}" "snd (relay_example 442)" relay_example_cfg]
    relay_example_packet [of 442]
  by (auto simp: relay_example_facts)

theorem relay_forwards_udp_witness:
  "\<exists>st' mem'. relay_iteration relay_example_cfg (relay_example 442) = Inr (st', mem') \<and>
    tx_appended [\<lparr>xd_addr = 0, xd_len = 442, xd_options = 0\<rparr>]
      (tx_sync False (ry_tx (fst (relay_example 442))) (xm_tx (snd (relay_example 442)))) (ry_tx st', xm_tx mem')"
  using relay_forwards_udp [of "fst (relay_example 442)" "{#0#}" "snd (relay_example 442)" relay_example_cfg]
    relay_example_packet [of 442]
  by (auto simp: relay_example_facts relay_dest_def)

theorem relay_publishes_witness:
  "(\<exists>st' mem'. relay_iteration relay_example_cfg (relay_example 442) = Inr (st', mem') \<and>
      rm_consumer (xm_rx mem') = 1) \<and>
   (\<exists>st' mem'. relay_iteration relay_example_cfg (relay_example 441) = Inr (st', mem') \<and>
      rm_consumer (xm_rx mem') = 0)"
  using relay_publishes [of "fst (relay_example 442)" "{#0#}" "snd (relay_example 442)" 1 relay_example_cfg]
    relay_publishes [of "fst (relay_example 441)" "{#0#}" "snd (relay_example 441)" 0 relay_example_cfg]
    relay_example_packet [of 442] relay_example_packet [of 441]
  by (auto simp: relay_example_facts published_def) (auto simp: relay_example_def Let_def)

section \<open>Where the loop falls short\<close>

lemma relay_packet_completion:
  "relay_packet cfg d s = Inr s' \<Longrightarrow> xm_completion (snd s') = xm_completion (snd s)"
  by (auto simp: relay_packet_def relay_forward_def give_back_def batch_commit_def relay_commit_def Let_def
      rbind_eq_Inr_iff split: prod.splits option.splits sum.splits if_splits)

lemma relay_rx_completion: "relay_rx cfg s = Inr s' \<Longrightarrow> xm_completion (snd s') = xm_completion (snd s)"
proof (induction cfg s rule: relay_rx.induct)
  case (1 cfg s)
  then show ?case
    by (subst (asm) (2) relay_rx.simps)
      (auto split: prod.splits option.splits sum.splits dest!: relay_packet_completion)
qed

text \<open>
  C23. The consumer index of the completion ring is never published: after any number of
  iterations the kernel sees the index it saw at the start, although the loop reads the ring and
  releases the frames. The kernel is only assumed not to write this index itself.
\<close>

theorem relay_completion_never_published:
  assumes "relay_main cfg inputs (st, mem) = Inr (st', mem')"
    and "\<forall>kern\<in>set inputs. \<forall>m. rm_consumer (xm_completion (kern m)) = rm_consumer (xm_completion m)"
  shows "rm_consumer (xm_completion mem') = rm_consumer (xm_completion mem)"
  using assms
proof (induction inputs arbitrary: st mem)
  case (Cons kern inputs)
  obtain st1 mem1 where it: "relay_iteration cfg (st, kern mem) = Inr (st1, mem1)"
    "relay_main cfg inputs (st1, mem1) = Inr (st', mem')"
    using Cons.prems(1) by (auto simp: rbind_eq_Inr_iff)
  have "xm_completion mem1 = xm_completion (kern mem)"
    using it(1) by (auto simp: relay_iteration_def rbind_eq_Inr_iff relay_final_commit_def relay_refill_def
        relay_commit_def relay_release_completed_def relay_sync_def completion_sync_def consumer_sync_def Let_def
        split: prod.splits if_splits dest!: relay_rx_completion)
  then show ?case using Cons.IH [OF it(2)] Cons.prems(2) by simp
qed simp

theorem relay_completion_never_published_witness:
  "\<exists>st' mem'. relay_main relay_example_cfg [\<lambda>m. m] (relay_example 442) = Inr (st', mem') \<and>
     rm_consumer (xm_completion mem') = rm_consumer (xm_completion (snd (relay_example 442)))"
proof -
  obtain st mem where s: "relay_example 442 = (st, mem)" by fastforce
  have f: "owned (ry_umem st) {#0#}" "ry_batch_count st = 0" "relay_completed st mem = []"
    "relay_received st mem = [\<lparr>xd_addr = 0, xd_len = 442, xd_options = 0\<rparr>]" "frame_index (ry_umem st) 0 = 0"
    "in_memory (ry_umem st) \<lparr>xd_addr = 0, xd_len = 442, xd_options = 0\<rparr>"
    using relay_example_facts [of 442] relay_example_packet(1) [of 442] by (simp_all add: s)
  obtain st' mem' where "relay_iteration relay_example_cfg (st, mem) = Inr (st', mem')"
    by (rule relay_iteration_ok [OF f(1,2), of mem relay_example_cfg]) (use f that in simp_all)
  then have "relay_main relay_example_cfg [\<lambda>m. m] (st, mem) = Inr (st', mem')" by simp
  then show ?thesis
    using relay_completion_never_published [of relay_example_cfg "[\<lambda>m. m]" st mem st' mem'] s by simp
qed

text \<open>
  Pre-filling a fill ring that is already full (in zero-copy mode the socket's set-up has
  filled it) takes a frame from the allocator and does not put it anywhere: the frame is neither
  in the ring nor available, so it belongs to nobody from then on.
\<close>

theorem relay_prefill_leaks:
  assumes "fill_available fill = 0" "reserve um = Some (f, um')" "owned um K" "0 < n"
  shows "relay_prefill n um fill m = (um', fill, m) \<and>
    owned um' (add_mset (frame_index um (fr_offset f)) K)"
proof -
  have "fill_write f fill m = (Inl (IoErr StorageFull), fill, m)"
    using assms(1) by (simp add: fill_write_def produce_def fill_available_def unat_eq_zero)
  then show ?thesis using assms(2,4) reserve_owned(1) [OF assms(3,2)] by (cases n) simp_all
qed

theorem relay_prefill_leaks_witness:
  "\<exists>um'. relay_prefill 1 (ry_umem (fst (relay_example 442)))
       \<lparr>rf_producer = \<lparr>rp_cached_producer = 2, rp_cached_consumer = 0, rp_size = 2\<rparr>, rf_size = 2, rf_fd = 3\<rparr>
       (xm_fill (snd (relay_example 442))) =
     (um', \<lparr>rf_producer = \<lparr>rp_cached_producer = 2, rp_cached_consumer = 0, rp_size = 2\<rparr>, rf_size = 2, rf_fd = 3\<rparr>,
       xm_fill (snd (relay_example 442))) \<and> owned um' {#1, 0#}"
proof -
  let ?um = "ry_umem (fst (relay_example 442))"
  let ?fill = "\<lparr>rf_producer = \<lparr>rp_cached_producer = 2, rp_cached_consumer = 0, rp_size = 2\<rparr>, rf_size = 2, rf_fd = 3\<rparr>"
  have a: "fill_available ?fill = 0" by (simp add: fill_available_def producer_available_def saturating_sub_def)
  obtain f um' where r: "reserve ?um = Some (f, um')" and i: "frame_index ?um (fr_offset f) = 1"
    by (auto simp: reserve_def relay_example_def Let_def frame_index_def)
  show ?thesis using relay_prefill_leaks [OF a r relay_example_facts(1), of 1] i by auto
qed

end
