(* ===== verification/Relay_Main.thy ===== *)
theory Relay_Main
  imports Relay_Loop
begin

text \<open>
  \<^verbatim>\<open>src/examples/relay.rs\<close>: the command line of the relay, up to the call of \<^verbatim>\<open>relay_loop\<close>, and
  the \<^verbatim>\<open>Display\<close> of \<^verbatim>\<open>MacAddress\<close> (\<^verbatim>\<open>src/src/netlink.rs\<close>). The parsing routines of the standard
  library are modelled as far as they are used: \<^verbatim>\<open>str::split\<close>, \<^verbatim>\<open>u8::from_str_radix\<close> and
  \<^verbatim>\<open>Ipv4Addr::from_str\<close>. The \<^verbatim>\<open>clap\<close> parser that fills the options is not.
\<close>

section \<open>Parsing\<close>

fun split_on :: "char \<Rightarrow> string \<Rightarrow> string list" where
  "split_on sep [] = [[]]"
| "split_on sep (c # cs) =
     (if c = sep then [] # split_on sep cs
      else case split_on sep cs of p # ps \<Rightarrow> (c # p) # ps | [] \<Rightarrow> [[c]])"

definition digit_value :: "char \<Rightarrow> nat option" where
  "digit_value c =
     (let n = of_char c :: nat in
      if 48 \<le> n \<and> n \<le> 57 then Some (n - 48)
      else if 97 \<le> n \<and> n \<le> 122 then Some (n - 87)
      else if 65 \<le> n \<and> n \<le> 90 then Some (n - 55)
      else None)"

text \<open>\<^verbatim>\<open>u8::from_str_radix\<close>: one leading plus sign is allowed; a value above 255 is an error.\<close>

fun from_digits :: "nat \<Rightarrow> nat \<Rightarrow> string \<Rightarrow> nat option" where
  "from_digits radix acc [] = Some acc"
| "from_digits radix acc (c # cs) =
     (case digit_value c of
        None \<Rightarrow> None
      | Some d \<Rightarrow>
          if d \<ge> radix \<or> acc * radix + d > 255 then None else from_digits radix (acc * radix + d) cs)"

definition u8_from_str_radix :: "nat \<Rightarrow> string \<Rightarrow> u8 option" where
  "u8_from_str_radix radix src =
     (case src of
        [] \<Rightarrow> None
      | c # cs \<Rightarrow>
          if c = CHR ''+'' then (if cs = [] then None else map_option of_nat (from_digits radix 0 cs))
          else map_option of_nat (from_digits radix 0 src))"

text \<open>\<^verbatim>\<open>Ipv4Addr::from_str\<close>: four decimal numbers of at most three digits without leading zeros.\<close>

definition parse_octet :: "string \<Rightarrow> u8 option" where
  "parse_octet s =
     (if s = [] \<or> length s > 3 \<or> (hd s = CHR ''0'' \<and> length s > 1) then None
      else map_option of_nat (from_digits 10 0 s))"

definition parse_ipv4 :: "string \<Rightarrow> ipv4_addr option" where
  "parse_ipv4 s =
     (case map parse_octet (split_on (CHR ''.'') s) of
        [Some a, Some b, Some c, Some d] \<Rightarrow> Some (Ipv4Addr a b c d)
      | _ \<Rightarrow> None)"

text \<open>The MAC address given on the command line.\<close>

definition parse_mac :: "string \<Rightarrow> mac_address option" where
  "parse_mac mac_str =
     (case map (u8_from_str_radix 16) (split_on (CHR '':'') mac_str) of
        [Some b0, Some b1, Some b2, Some b3, Some b4, Some b5] \<Rightarrow> Some (MacAddress b0 b1 b2 b3 b4 b5)
      | _ \<Rightarrow> None)"

section \<open>Display\<close>

definition hex_digit :: "nat \<Rightarrow> char" where
  "hex_digit n = (if n < 10 then char_of (48 + n) else char_of (87 + n))"

definition hex_byte :: "u8 \<Rightarrow> string" where
  "hex_byte b = [hex_digit (unat b div 16), hex_digit (unat b mod 16)]"

fun mac_fmt :: "mac_address \<Rightarrow> string" where
  "mac_fmt (MacAddress b0 b1 b2 b3 b4 b5) =
     hex_byte b0 @ CHR '':'' # hex_byte b1 @ CHR '':'' # hex_byte b2 @ CHR '':'' #
     hex_byte b3 @ CHR '':'' # hex_byte b4 @ CHR '':'' # hex_byte b5"

section \<open>The main function\<close>

record relay_opt =
  opt_interface :: "u8 list"
  opt_dest_ip :: "string option"
  opt_dest_port :: "u16 option"
  opt_dest_mac :: "string option"
  opt_zero_copy :: bool
  opt_queue :: u64
  opt_cpu :: usize

text \<open>How the program goes on: it ends with an exit code or an error, or it enters the loop.\<close>

datatype relay_outcome =
    Exit nat
  | MainError
  | MainPanic string
  | Relay usize network_device u64 bool "ipv4_addr option" "u16 option" "mac_address option"

definition relay_destination ::
  "string option \<Rightarrow> u16 option \<Rightarrow> relay_outcome + (ipv4_addr option \<times> u16 option)" where
  "relay_destination ip port =
     (case (ip, port) of
        (Some ip, Some port) \<Rightarrow>
          (case parse_ipv4 ip of None \<Rightarrow> Inl MainError | Some ip \<Rightarrow> Inr (Some ip, Some port))
      | (None, None) \<Rightarrow> Inr (None, None)
      | _ \<Rightarrow> Inl (Exit 1))"

definition relay_main_fn ::
  "(string \<Rightarrow> bool) \<Rightarrow> loop_sys \<Rightarrow> (u8 list \<Rightarrow> int + u32) \<Rightarrow> relay_opt \<Rightarrow> relay_outcome" where
  "relay_main_fn raise_cap sys if_nametoindex opt =
     (if \<not> list_all raise_cap [''CAP_NET_ADMIN'', ''CAP_NET_RAW'', ''CAP_BPF''] then Exit 1
      else case set_cpu_affinity sys [opt_cpu opt] of
        Inl _ \<Rightarrow> MainPanic ''called Result::unwrap() on an Err value''
      | Inr _ \<Rightarrow>
          (case device_new if_nametoindex (opt_interface opt) of
             Inl _ \<Rightarrow> MainError
           | Inr dev \<Rightarrow>
               (case relay_destination (opt_dest_ip opt) (opt_dest_port opt) of
                  Inl outcome \<Rightarrow> outcome
                | Inr (dest_ip, dest_port) \<Rightarrow>
                    (case map_option parse_mac (opt_dest_mac opt) of
                       Some None \<Rightarrow> Exit 1
                     | mac \<Rightarrow>
                         Relay (opt_cpu opt) dev (opt_queue opt) (opt_zero_copy opt) dest_ip dest_port
                           (case mac of None \<Rightarrow> None | Some m \<Rightarrow> m)))))"

section \<open>Addresses survive printing and parsing\<close>

lemma split_on_no_sep: "sep \<notin> set s \<Longrightarrow> split_on sep s = [s]"
  by (induction s) auto

lemma split_on_sep: "sep \<notin> set s \<Longrightarrow> split_on sep (s @ sep # t) = s # split_on sep t"
  by (induction s) auto

lemma hex_digit_value:
  assumes "n < 16"
  shows "digit_value (hex_digit n) = Some n \<and> hex_digit n \<noteq> CHR '':'' \<and> hex_digit n \<noteq> CHR ''+''"
proof -
  have o: "(of_char (hex_digit n) :: nat) = (if n < 10 then 48 + n else 87 + n)"
    using assms by (simp add: hex_digit_def)
  have "digit_value (hex_digit n) = Some n" using assms by (simp add: digit_value_def o Let_def)
  moreover have "hex_digit n \<noteq> c" if "(of_char c :: nat) \<in> {43, 58}" for c
    using o that assms by (auto split: if_splits)
  ultimately show ?thesis by simp
qed

lemma hex_byte_facts: "CHR '':'' \<notin> set (hex_byte b)" "u8_from_str_radix 16 (hex_byte b) = Some b"
proof -
  define h l where "h = unat b div 16" and "l = unat b mod 16"
  have b: "unat b < 256" using unsigned_less [of b, where ?'a = nat] by simp
  then have lt: "h < 16" "l < 16" by (simp_all add: h_def l_def)
  have sum: "h * 16 + l = unat b" by (simp add: h_def l_def)
  show "CHR '':'' \<notin> set (hex_byte b)"
    using hex_digit_value [OF lt(1)] hex_digit_value [OF lt(2)] by (auto simp: hex_byte_def h_def l_def)
  have "from_digits 16 0 [hex_digit h, hex_digit l] = Some (unat b)"
    using hex_digit_value [OF lt(1)] hex_digit_value [OF lt(2)] lt sum b by simp
  then show "u8_from_str_radix 16 (hex_byte b) = Some b"
    using hex_digit_value [OF lt(1)]
    by (simp add: u8_from_str_radix_def hex_byte_def h_def [symmetric] l_def [symmetric])
qed

text \<open>
  C37. The relay accepts every MAC address in the form the library prints it, and reads back the
  same address.
\<close>

theorem mac_roundtrip: "parse_mac (mac_fmt mac) = Some mac"
  by (cases mac) (simp add: parse_mac_def split_on_sep split_on_no_sep hex_byte_facts)

text \<open>The loop is entered with a complete destination or with none.\<close>

lemma relay_destination_both:
  "relay_destination ip port = Inr (ip', port') \<Longrightarrow> (ip' = None) = (port' = None) \<and> (ip' = None) = (ip = None)"
  unfolding relay_destination_def
  by (cases ip; cases port; cases "parse_ipv4 (the ip)") (auto dest: sym)

lemma relay_main_destination:
  assumes "relay_main_fn raise_cap sys if_nametoindex opt = Relay cpu dev queue zc ip port mac"
  shows "(ip = None) = (port = None) \<and> (ip = None) = (opt_dest_ip opt = None)"
  by (rule relay_destination_both [of _ "opt_dest_port opt"])
    (use assms in \<open>auto simp: relay_main_fn_def relay_destination_def split: if_splits sum.splits option.splits\<close>)

end
