(* ===== verification/Packet_Pool.thy ===== *)
theory Packet_Pool
  imports Slot_Pool
begin

text \<open>
  \<^verbatim>\<open>src/examples/packet_pool.rs\<close>: a pool of packet buffers handed out through a bit set of
  atomic words. \<open>acquire\<close> is the search as it runs when no other thread interferes;
  \<open>acq_step\<close> is the same code as steps of one thread, each a single access to shared memory, so
  that the steps of several threads can interleave and the weak compare-and-exchange can fail
  for no reason. Times are those of the standard library's clock, as natural numbers.
\<close>

section \<open>Buffers\<close>

abbreviation MAX_PACKET_SIZE :: nat where "MAX_PACKET_SIZE \<equiv> 9000"

definition POOL_SIZE :: nat where "POOL_SIZE = 65536"

record packet_buffer =
  pb_data :: "u8 list"
  pb_len :: nat

definition as_slice :: "packet_buffer \<Rightarrow> u8 list option" where
  "as_slice b = subslice 0 (pb_len b) (pb_data b)"

definition set_data :: "u8 list \<Rightarrow> packet_buffer \<Rightarrow> packet_buffer option" where
  "set_data data b =
     (let len = min (length data) MAX_PACKET_SIZE in
      map_option (\<lambda>d. \<lparr>pb_data = d, pb_len = len\<rparr>) (copy_at 0 (take len data) (pb_data b)))"

record packet_meta =
  pm_src_ip :: "u8 list"
  pm_src_port :: u16
  pm_dst_ip :: "u8 list"
  pm_dst_port :: u16
  pm_timestamp :: nat

section \<open>The pool\<close>

record packet_pool =
  pp_packets :: "packet_buffer list"
  pp_meta :: "packet_meta list"
  pp_free_mask :: "u64 list"
  pp_next_search :: nat

definition pool_words :: nat where "pool_words = POOL_SIZE div 64"

definition packet_pool_new :: packet_pool where
  "packet_pool_new =
     \<lparr>pp_packets = replicate POOL_SIZE \<lparr>pb_data = replicate MAX_PACKET_SIZE 0, pb_len = 0\<rparr>,
      pp_meta = replicate POOL_SIZE \<lparr>pm_src_ip = [0, 0, 0, 0], pm_src_port = 0, pm_dst_ip = [0, 0, 0, 0],
        pm_dst_port = 0, pm_timestamp = 0\<rparr>,
      pp_free_mask = replicate pool_words (- 1), pp_next_search = 0\<rparr>"

definition trailing_zeros :: "u64 \<Rightarrow> nat" where
  "trailing_zeros w = length (takeWhile (\<lambda>i. \<not> bit w i) [0..<64])"

text \<open>The search from a word on, \<open>n\<close> words still to look at.\<close>

fun acquire_from :: "nat \<Rightarrow> nat \<Rightarrow> packet_pool \<Rightarrow> (nat \<times> packet_pool) option" where
  "acquire_from start 0 pool = None"
| "acquire_from start (Suc n) pool =
     (let idx = (start + (pool_words - Suc n)) mod pool_words; current = pp_free_mask pool ! idx in
      if current = 0 \<or> trailing_zeros current \<ge> 64 then acquire_from start n pool
      else Some (idx * 64 + trailing_zeros current,
        pool\<lparr>pp_free_mask := (pp_free_mask pool)[idx := current AND NOT (push_bit (trailing_zeros current) 1)],
             pp_next_search := (idx + 1) mod pool_words\<rparr>))"

definition acquire :: "packet_pool \<Rightarrow> (nat \<times> packet_pool) option" where
  "acquire pool = acquire_from (pp_next_search pool mod pool_words) pool_words pool"

definition pool_release :: "nat \<Rightarrow> packet_pool \<Rightarrow> packet_pool" where
  "pool_release index pool =
     pool\<lparr>pp_free_mask := (pp_free_mask pool)[index div 64 :=
       (pp_free_mask pool ! (index div 64)) OR push_bit (index mod 64) 1]\<rparr>"

definition acquire_ref :: "u8 list \<Rightarrow> packet_meta \<Rightarrow> packet_pool \<Rightarrow> (nat \<times> packet_pool) option option" where
  "acquire_ref data meta pool =
     (case acquire pool of
        None \<Rightarrow> Some None
      | Some (index, pool) \<Rightarrow>
          map_option (\<lambda>b. Some (index, pool\<lparr>pp_packets := (pp_packets pool)[index := b],
                                           pp_meta := (pp_meta pool)[index := meta]\<rparr>))
            (set_data data (pp_packets pool ! index)))"

definition packet_ref_payload :: "nat \<Rightarrow> packet_pool \<Rightarrow> u8 list option" where
  "packet_ref_payload index pool = as_slice (pp_packets pool ! index)"

section \<open>The pool hands out free slots\<close>

definition pool_inv :: "packet_pool \<Rightarrow> bool" where
  "pool_inv pool \<longleftrightarrow> length (pp_free_mask pool) = pool_words"

definition free_in :: "u64 list \<Rightarrow> nat set" where
  "free_in masks = {i. i < POOL_SIZE \<and> bit (masks ! (i div 64)) (i mod 64)}"

lemma pool_words_eq: "pool_words = 1024"
  by (simp add: pool_words_def POOL_SIZE_def)

lemma slot_word: "i < POOL_SIZE \<Longrightarrow> i div 64 < pool_words"
  by (simp add: pool_words_def POOL_SIZE_def)

lemma trailing_zeros_bit:
  assumes "w \<noteq> 0"
  shows "trailing_zeros w < 64" "bit w (trailing_zeros w)"
proof -
  obtain i where i: "i < 64" "bit w i" using assms bit_word_eqI [of w 0] by auto
  have len: "trailing_zeros w \<le> i"
  proof (rule ccontr)
    assume "\<not> ?thesis"
    then have "[0..<64] ! i \<in> set (takeWhile (\<lambda>i. \<not> bit w i) [0..<64])"
      using i(1) by (metis linorder_not_le nth_mem takeWhile_nth trailing_zeros_def)
    then show False using i by (auto dest: set_takeWhileD)
  qed
  then show lt: "trailing_zeros w < 64" using i(1) by simp
  then have "\<not> \<not> bit w ([0..<64] ! trailing_zeros w)"
    unfolding trailing_zeros_def by (intro nth_length_takeWhile) simp
  then show "bit w (trailing_zeros w)" using lt by simp
qed

lemma free_in_clear:
  assumes "length masks = pool_words" "idx < pool_words" "b < 64"
  shows "free_in (masks[idx := masks ! idx AND NOT (push_bit b 1)]) = free_in masks - {idx * 64 + b}"
proof -
  have "bit (masks[idx := masks ! idx AND NOT (push_bit b 1)] ! (i div 64)) (i mod 64)
      \<longleftrightarrow> bit (masks ! (i div 64)) (i mod 64) \<and> i \<noteq> idx * 64 + b" if "i < POOL_SIZE" for i
    using assms slot_word [OF that]
    by (auto simp: nth_list_update bit_simps) (metis add_left_cancel div_mult_mod_eq)
  then show ?thesis by (auto simp: free_in_def)
qed

lemma free_in_set:
  assumes "length masks = pool_words" "i < POOL_SIZE"
  shows "free_in (masks[i div 64 := masks ! (i div 64) OR push_bit (i mod 64) 1]) = insert i (free_in masks)"
proof -
  have "bit (masks[i div 64 := masks ! (i div 64) OR push_bit (i mod 64) 1] ! (j div 64)) (j mod 64)
      \<longleftrightarrow> bit (masks ! (j div 64)) (j mod 64) \<or> j = i" if "j < POOL_SIZE" for j
    using assms slot_word [OF that] slot_word [OF assms(2)]
    by (auto simp: nth_list_update bit_simps) (metis div_mult_mod_eq)
  then show ?thesis using assms(2) by (auto simp: free_in_def)
qed

lemma pool_release_free:
  assumes "pool_inv pool" "i < POOL_SIZE"
  shows "pool_inv (pool_release i pool)"
    "free_in (pp_free_mask (pool_release i pool)) = insert i (free_in (pp_free_mask pool))"
  using assms free_in_set by (simp_all add: pool_release_def pool_inv_def)

lemma acquire_from_Some:
  assumes "acquire_from start n pool = Some (i, pool')" "pool_inv pool"
  shows "pool_inv pool' \<and> i \<in> free_in (pp_free_mask pool) \<and>
    free_in (pp_free_mask pool') = free_in (pp_free_mask pool) - {i} \<and>
    pp_packets pool' = pp_packets pool \<and> pp_meta pool' = pp_meta pool"
  using assms
proof (induction n)
  case (Suc n)
  define idx where "idx = (start + (pool_words - Suc n)) mod pool_words"
  let ?w = "pp_free_mask pool ! idx"
  have idx: "idx < pool_words" by (simp add: idx_def pool_words_eq)
  show ?case
  proof (cases "?w = 0")
    case True
    then show ?thesis using Suc by (simp add: idx_def [symmetric] Let_def)
  next
    case False
    note t = trailing_zeros_bit [OF False]
    have i: "i = idx * 64 + trailing_zeros ?w"
      and p: "pool' = pool\<lparr>pp_free_mask := (pp_free_mask pool)[idx := ?w AND NOT (push_bit (trailing_zeros ?w) 1)],
        pp_next_search := (idx + 1) mod pool_words\<rparr>"
      using Suc.prems(1) False t(1) by (auto simp: idx_def [symmetric] Let_def)
    have "i \<in> free_in (pp_free_mask pool)"
      using t idx by (simp add: i free_in_def pool_words_def POOL_SIZE_def)
    then show ?thesis
      using free_in_clear [OF _ idx t(1), of "pp_free_mask pool"] Suc.prems(2) by (simp add: i p pool_inv_def)
  qed
qed simp

lemma acquire_from_None:
  assumes "acquire_from start n pool = None" "n \<le> pool_words" "pool_words - n \<le> k" "k < pool_words"
  shows "pp_free_mask pool ! ((start + k) mod pool_words) = 0"
  using assms
proof (induction n)
  case (Suc n)
  let ?w = "pp_free_mask pool ! ((start + (pool_words - Suc n)) mod pool_words)"
  have z: "?w = 0" using Suc.prems(1) trailing_zeros_bit(1) [of ?w] by (force simp: Let_def split: if_splits)
  show ?case
  proof (cases "k = pool_words - Suc n")
    case False
    then show ?thesis using Suc z by (simp add: Let_def)
  qed (use z in simp)
qed simp

lemma cyclic_reach: "s < n \<Longrightarrow> j < n \<Longrightarrow> (s + (j + (n - s)) mod n) mod n = (j :: nat)"
proof -
  assume "s < n" "j < n"
  have "(s + (j + (n - s)) mod n) mod n = (s + (j + (n - s))) mod n" by (simp only: mod_add_right_eq)
  also have "s + (j + (n - s)) = j + n" using \<open>s < n\<close> by simp
  also have "(j + n) mod n = j" using \<open>j < n\<close> by simp
  finally show ?thesis .
qed

lemma acquire_None_iff:
  assumes "pool_inv pool"
  shows "acquire pool = None \<longleftrightarrow> free_in (pp_free_mask pool) = {}"
proof
  assume a: "acquire pool = None"
  let ?s = "pp_next_search pool mod pool_words"
  have "pp_free_mask pool ! j = 0" if "j < pool_words" for j
  proof -
    let ?k = "(j + (pool_words - ?s)) mod pool_words"
    have "?s < pool_words" by (simp add: pool_words_eq)
    then have "(?s + ?k) mod pool_words = j"
      using that by (rule cyclic_reach)
    moreover have "?k < pool_words" by (simp add: pool_words_eq)
    ultimately show ?thesis using acquire_from_None [OF a [unfolded acquire_def], of ?k] by simp
  qed
  then show "free_in (pp_free_mask pool) = {}" using slot_word by (auto simp: free_in_def)
next
  assume "free_in (pp_free_mask pool) = {}"
  then show "acquire pool = None"
    using acquire_from_Some [OF _ assms] by (cases "acquire pool") (auto simp: acquire_def)
qed

text \<open>So the pool keeps the contract of an allocator of slots, as the frame memory does.\<close>

interpretation packets: slot_pool pool_inv "\<lambda>p. free_in (pp_free_mask p)" "\<lambda>_. {..<POOL_SIZE}" acquire pool_release
proof
  fix s i s' assume inv: "pool_inv s"
  show "free_in (pp_free_mask s) \<subseteq> {..<POOL_SIZE}" by (auto simp: free_in_def)
  show "(acquire s = None) = (free_in (pp_free_mask s) = {})" by (rule acquire_None_iff [OF inv])
  show "pool_inv s' \<and> {..<POOL_SIZE} = {..<POOL_SIZE} \<and> i \<in> free_in (pp_free_mask s) \<and>
      free_in (pp_free_mask s') = free_in (pp_free_mask s) - {i}" if "acquire s = Some (i, s')"
    using acquire_from_Some [OF _ inv] that by (simp add: acquire_def)
  show "pool_inv (pool_release i s) \<and> {..<POOL_SIZE} = {..<POOL_SIZE} \<and>
      free_in (pp_free_mask (pool_release i s)) = insert i (free_in (pp_free_mask s))" if "i \<in> {..<POOL_SIZE}"
    using pool_release_free [OF inv] that by simp
qed

section \<open>Threads\<close>

text \<open>
  Where a thread is in \<^verbatim>\<open>acquire\<close>: before it, about to load the word at an offset from the start
  of its search, about to claim the first set bit of the value it loaded, about to store the
  hint for the next search, or done with a slot or without.
\<close>

datatype acq_pc =
    Start
  | Search nat nat
  | Claim nat nat u64
  | Won nat nat
  | Holds nat
  | Exhausted

type_synonym pool_shared = "u64 list \<times> nat"

fun acq_step :: "bool \<Rightarrow> pool_shared \<Rightarrow> acq_pc \<Rightarrow> pool_shared \<times> acq_pc" where
  "acq_step weak (masks, hint) Start = ((masks, hint), Search (hint mod pool_words) 0)"
| "acq_step weak (masks, hint) (Search start off) =
     (if off < pool_words then
        let current = masks ! ((start + off) mod pool_words) in
        if current = 0 \<or> trailing_zeros current \<ge> 64 then ((masks, hint), Search start (off + 1))
        else ((masks, hint), Claim start off current)
      else ((masks, hint), Exhausted))"
| "acq_step weak (masks, hint) (Claim start off current) =
     (let idx = (start + off) mod pool_words; bit_pos = trailing_zeros current in
      if masks ! idx = current \<and> \<not> weak
      then ((masks[idx := current AND NOT (push_bit bit_pos 1)], hint), Won (idx * 64 + bit_pos) idx)
      else ((masks, hint), Search start off))"
| "acq_step weak (masks, hint) (Won i idx) = ((masks, (idx + 1) mod pool_words), Holds i)"
| "acq_step weak sh (Holds i) = (sh, Holds i)"
| "acq_step weak sh Exhausted = (sh, Exhausted)"

definition release_mask :: "nat \<Rightarrow> pool_shared \<Rightarrow> pool_shared" where
  "release_mask i sh = (case sh of (masks, hint) \<Rightarrow>
     (masks[i div 64 := (masks ! (i div 64)) OR push_bit (i mod 64) 1], hint))"

text \<open>Any number of threads: in each step one of them goes on, or drops the slot it holds.\<close>

inductive thread_step :: "pool_shared \<times> (nat \<Rightarrow> acq_pc) \<Rightarrow> pool_shared \<times> (nat \<Rightarrow> acq_pc) \<Rightarrow> bool" where
  step: "acq_step weak sh (pcs t) = (sh', pc) \<Longrightarrow> thread_step (sh, pcs) (sh', pcs(t := pc))"
| drop: "pcs t = Holds i \<Longrightarrow> thread_step (sh, pcs) (release_mask i sh, pcs(t := Start))"
| retry: "pcs t = Exhausted \<Longrightarrow> thread_step (sh, pcs) (sh, pcs(t := Start))"

inductive pool_reach :: "pool_shared \<times> (nat \<Rightarrow> acq_pc) \<Rightarrow> bool" where
  pool_init: "pool_reach ((pp_free_mask packet_pool_new, pp_next_search packet_pool_new), \<lambda>_. Start)"
| pool_next: "pool_reach c \<Longrightarrow> thread_step c c' \<Longrightarrow> pool_reach c'"

text \<open>The specification: a set of free slots and the slot each thread holds, changed atomically.\<close>

inductive spec_step :: "nat set \<times> (nat \<rightharpoonup> nat) \<Rightarrow> nat set \<times> (nat \<rightharpoonup> nat) \<Rightarrow> bool" where
  take: "h t = None \<Longrightarrow> i \<in> F \<Longrightarrow> spec_step (F, h) (F - {i}, h(t \<mapsto> i))"
| give: "h t = Some i \<Longrightarrow> spec_step (F, h) (insert i F, h(t := None))"

inductive spec_reach :: "nat set \<times> (nat \<rightharpoonup> nat) \<Rightarrow> bool" where
  spec_init: "spec_reach ({..<POOL_SIZE}, Map.empty)"
| spec_next: "spec_reach a \<Longrightarrow> spec_step a a' \<Longrightarrow> spec_reach a'"

fun held_by :: "acq_pc \<Rightarrow> nat option" where
  "held_by (Won i idx) = Some i"
| "held_by (Holds i) = Some i"
| "held_by pc = None"

definition pool_abs :: "pool_shared \<times> (nat \<Rightarrow> acq_pc) \<Rightarrow> nat set \<times> (nat \<rightharpoonup> nat)" where
  "pool_abs c = (free_in (fst (fst c)), \<lambda>t. held_by (snd c t))"

lemma spec_invariant:
  "spec_reach a \<Longrightarrow> (\<forall>t i. snd a t = Some i \<longrightarrow> i \<notin> fst a \<and> i < POOL_SIZE) \<and> fst a \<subseteq> {..<POOL_SIZE} \<and>
     (\<forall>t u i. snd a t = Some i \<and> snd a u = Some i \<longrightarrow> t = u)"
proof (induction rule: spec_reach.induct)
  case (spec_next a a')
  from spec_next.hyps(2) show ?case using spec_next.IH
    by (cases rule: spec_step.cases) (auto split: if_splits)
qed simp

definition pool_wf :: "pool_shared \<times> (nat \<Rightarrow> acq_pc) \<Rightarrow> bool" where
  "pool_wf c \<longleftrightarrow> length (fst (fst c)) = pool_words \<and> (\<forall>t s f. snd c t \<noteq> Claim s f 0)"

lemma held_by_upd: "(\<lambda>t. held_by ((pcs(u := pc)) t)) = (\<lambda>t. held_by (pcs t))(u := held_by pc)"
  by auto

lemma acq_step_refines:
  assumes "acq_step weak sh (pcs t) = (sh', pc)" "pool_wf (sh, pcs)"
  shows "pool_wf (sh', pcs(t := pc)) \<and>
    (pool_abs (sh', pcs(t := pc)) = pool_abs (sh, pcs) \<or> spec_step (pool_abs (sh, pcs)) (pool_abs (sh', pcs(t := pc))))"
proof (cases "\<exists>s f w. pcs t = Claim s f w \<and> fst sh ! ((s + f) mod pool_words) = w \<and> \<not> weak")
  case True
  then obtain s f w where c: "pcs t = Claim s f w" "fst sh ! ((s + f) mod pool_words) = w" "\<not> weak" by blast
  obtain masks hint where sh: "sh = (masks, hint)" by (cases sh)
  let ?idx = "(s + f) mod pool_words" and ?b = "trailing_zeros w"
  have w: "w \<noteq> 0" "length masks = pool_words" using assms(2) c(1) by (auto simp: pool_wf_def sh)
  note tz = trailing_zeros_bit [OF w(1)]
  have idx: "?idx < pool_words" by (simp add: pool_words_eq)
  have r: "sh' = (masks[?idx := w AND NOT (push_bit ?b 1)], hint)" "pc = Won (?idx * 64 + ?b) ?idx"
    using assms(1) c sh by (auto simp: Let_def)
  have "?idx * 64 + ?b \<in> free_in masks"
    using tz idx c(2) by (simp add: free_in_def pool_words_def POOL_SIZE_def sh)
  moreover have "free_in (fst sh') = free_in masks - {?idx * 64 + ?b}"
    using free_in_clear [OF w(2) idx tz(1)] c(2) by (simp add: r sh)
  ultimately have "spec_step (pool_abs (sh, pcs)) (pool_abs (sh', pcs(t := pc)))"
    using spec_step.take [of "\<lambda>t. held_by (pcs t)" t "?idx * 64 + ?b" "free_in masks"] c(1)
    by (simp add: pool_abs_def held_by_upd r(2) sh del: fun_upd_apply)
  moreover have "pool_wf (sh', pcs(t := pc))" using assms(2) w(2) by (auto simp: pool_wf_def r)
  ultimately show ?thesis by blast
next
  case False
  obtain masks hint where sh: "sh = (masks, hint)" by (cases sh)
  have "fst sh' = masks" "held_by pc = held_by (pcs t)" "\<And>s f w. pc = Claim s f w \<Longrightarrow> pcs t = Claim s f w \<or> w \<noteq> 0"
    using assms(1) False sh by (cases "pcs t"; auto simp: Let_def split: if_splits)+
  then show ?thesis
    using assms(2) by (auto simp: pool_abs_def pool_wf_def sh held_by_upd fun_upd_idem)
qed

lemma release_refines:
  assumes "pcs t = Holds i" "pool_wf (sh, pcs)" "i < POOL_SIZE"
  shows "pool_wf (release_mask i sh, pcs(t := Start)) \<and>
    spec_step (pool_abs (sh, pcs)) (pool_abs (release_mask i sh, pcs(t := Start)))"
proof -
  obtain masks hint where sh: "sh = (masks, hint)" by (cases sh)
  have l: "length masks = pool_words" using assms(2) by (simp add: pool_wf_def sh)
  have "spec_step (free_in masks, \<lambda>t. held_by (pcs t)) (insert i (free_in masks), (\<lambda>t. held_by (pcs t))(t := None))"
    using assms(1) by (intro spec_step.give) simp
  then show ?thesis
    using assms(2) free_in_set [OF l assms(3)]
    by (auto simp: pool_abs_def release_mask_def sh held_by_upd pool_wf_def simp del: fun_upd_apply) (auto split: if_splits)
qed

lemma pool_reach_refines: "pool_reach c \<Longrightarrow> pool_wf c \<and> spec_reach (pool_abs c)"
proof (induction rule: pool_reach.induct)
  case pool_init
  have "free_in (replicate pool_words (- 1)) = {..<POOL_SIZE}"
    using slot_word by (auto simp: free_in_def)
  then show ?case using spec_init by (simp add: pool_wf_def pool_abs_def packet_pool_new_def)
next
  case (pool_next c c')
  from pool_next.hyps(2) show ?case
  proof (cases rule: thread_step.cases)
    case (step weak sh pcs t sh' pc)
    then show ?thesis using acq_step_refines [of weak sh pcs t sh' pc] pool_next.IH spec_next [of "pool_abs c" "pool_abs c'"] by auto
  next
    case (drop pcs t i sh)
    then have "i < POOL_SIZE" 
      using spec_invariant [of "pool_abs c", THEN conjunct1, rule_format, of t i] pool_next.IH by (simp add: pool_abs_def)
    then show ?thesis using release_refines [of pcs t i sh] drop(1-3) pool_next.IH spec_next [of "pool_abs c" "pool_abs c'"] by auto
  next
    case (retry pcs t sh)
    then have "pool_abs c' = pool_abs c" by (auto simp: pool_abs_def held_by_upd)
    then show ?thesis using pool_next.IH retry by (auto simp: pool_wf_def)
  qed
qed


text \<open>C32. Whatever the interleaving, and however often the weak compare-and-exchange fails
  spuriously, the threads' view of the packet pool is one the specification reaches: slots are
  taken from and given back to a set of free slots atomically. In particular no two threads ever
  hold the same buffer, and a held buffer is not marked free.\<close>

theorem pool_refines_spec:
  assumes "pool_reach (sh, pcs)"
  shows "spec_reach (pool_abs (sh, pcs)) \<and>
    (\<forall>t u i. pcs t = Holds i \<and> pcs u = Holds i \<longrightarrow> t = u) \<and>
    (\<forall>t i. pcs t = Holds i \<longrightarrow> i < POOL_SIZE \<and> i \<notin> free_in (fst sh))"
proof -
  have r: "spec_reach (pool_abs (sh, pcs))" using pool_reach_refines [OF assms] by simp
  have "t = u" if "pcs t = Holds i" "pcs u = Holds i" for t u i
    using spec_invariant [OF r, THEN conjunct2, THEN conjunct2, rule_format, of t i u] that by (simp add: pool_abs_def)
  moreover have "i < POOL_SIZE \<and> i \<notin> free_in (fst sh)" if "pcs t = Holds i" for t i
    using spec_invariant [OF r, THEN conjunct1, rule_format, of t i] that by (simp add: pool_abs_def)
  ultimately show ?thesis using r by (intro conjI allI impI) auto
qed

lemma trailing_zeros_odd: "bit w 0 \<Longrightarrow> trailing_zeros w = 0"
  by (simp add: trailing_zeros_def upt_conv_Cons)

theorem pool_refines_spec_witness:
  "\<exists>sh pcs. pcs 7 = Holds 0 \<and> pcs 3 = Holds 64 \<and> spec_reach (pool_abs (sh, pcs)) \<and> 64 \<notin> free_in (fst sh)"
proof -
  let ?m = "replicate pool_words (- 1 :: u64)"
  let ?m1 = "?m[0 := - 1 AND NOT (push_bit 0 1)]" and ?m2 = "?m[0 := - 1 AND NOT (push_bit 0 1), 1 := - 1 AND NOT (push_bit 0 1)]"
  let ?p0 = "\<lambda>_. Start"
  have pw: "0 < pool_words" "Suc 0 < pool_words" "Suc (Suc 0) < pool_words" "pool_words \<noteq> Suc 0" by (simp_all add: pool_words_eq)
  note go = pool_next [OF _ thread_step.step [where weak = False]]
  have "pool_reach ((?m, 0), ?p0)" using pool_init by (simp add: packet_pool_new_def)
  then have "pool_reach ((?m, 0), ?p0(7 := Search 0 0))" by (rule go) simp
  then have "pool_reach ((?m, 0), ?p0(7 := Search 0 0, 7 := Claim 0 0 (- 1)))"
    by (rule go) (simp add: pw trailing_zeros_odd Let_def)
  then have "pool_reach ((?m1, 0), ?p0(7 := Search 0 0, 7 := Claim 0 0 (- 1), 7 := Won 0 0))"
    by (rule go) (simp add: pw trailing_zeros_odd Let_def)
  then have "pool_reach ((?m1, 1), ?p0(7 := Search 0 0, 7 := Claim 0 0 (- 1), 7 := Won 0 0, 7 := Holds 0))"
    by (rule go) (simp add: pw)
  then have "pool_reach ((?m1, 1), ?p0(7 := Holds 0))" by simp
  then have "pool_reach ((?m1, 1), ?p0(7 := Holds 0, 3 := Search 1 0))" by (rule go) (simp add: pw)
  then have "pool_reach ((?m1, 1), ?p0(7 := Holds 0, 3 := Search 1 0, 3 := Claim 1 0 (- 1)))"
    by (rule go) (simp add: pw trailing_zeros_odd Let_def)
  then have "pool_reach ((?m2, 1), ?p0(7 := Holds 0, 3 := Search 1 0, 3 := Claim 1 0 (- 1), 3 := Won 64 1))"
    by (rule go) (simp add: pw trailing_zeros_odd Let_def)
  then have "pool_reach ((?m2, 2), ?p0(7 := Holds 0, 3 := Search 1 0, 3 := Claim 1 0 (- 1), 3 := Won 64 1, 3 := Holds 64))"
    by (rule go) (simp add: pw)
  then have r: "pool_reach ((?m2, 2), ?p0(7 := Holds 0, 3 := Holds 64))" by simp
  note ok = pool_refines_spec [OF r]
  have "64 \<notin> free_in ?m2" using ok [THEN conjunct2, THEN conjunct2, rule_format, of 3 64] by simp
  then show ?thesis using ok [THEN conjunct1]
    by (intro exI [of _ "(?m2, 2)"] exI [of _ "?p0(7 := Holds 0, 3 := Holds 64)"] conjI) simp_all
qed

section \<open>One thread alone\<close>

text \<open>
  A run of one thread: for each step the flag says whether a weak compare-and-exchange made in
  it fails for no reason.
\<close>

fun acq_run :: "bool list \<Rightarrow> pool_shared \<Rightarrow> acq_pc \<Rightarrow> pool_shared \<times> acq_pc" where
  "acq_run [] sh pc = (sh, pc)"
| "acq_run (weak # ws) sh pc = (case acq_step weak sh pc of (sh', pc') \<Rightarrow> acq_run ws sh' pc')"

definition spurious :: "bool list \<Rightarrow> nat" where
  "spurious ws = length (filter (\<lambda>weak. weak) ws)"

text \<open>
  How far a slot is from the start of a search that begins with the word \<open>start\<close>, goes round the
  words and through each from the least significant bit.
\<close>

definition distance :: "nat \<Rightarrow> nat \<Rightarrow> nat" where
  "distance start i = (i div 64 + (pool_words - start)) mod pool_words * 64 + i mod 64"

text \<open>What an acquisition that is not disturbed should end with, by the set of free slots alone.\<close>

definition acquired :: "nat \<Rightarrow> pool_shared \<Rightarrow> pool_shared \<times> acq_pc \<Rightarrow> bool" where
  "acquired start sh r \<longleftrightarrow>
     (if free_in (fst sh) = {} then r = (sh, Exhausted)
      else \<exists>i \<in> free_in (fst sh). (\<forall>j \<in> free_in (fst sh). distance start i \<le> distance start j) \<and>
        snd r = Holds i \<and> length (fst (fst r)) = pool_words \<and> free_in (fst (fst r)) = free_in (fst sh) - {i} \<and>
        snd (fst r) = (i div 64 + 1) mod pool_words)"

lemma acq_run_done: "acq_run ws sh (Holds i) = (sh, Holds i)" "acq_run ws sh Exhausted = (sh, Exhausted)"
  by (induction ws) auto

lemma trailing_zeros_le: "bit w i \<Longrightarrow> trailing_zeros w \<le> i"
proof (rule ccontr)
  assume b: "bit w i" and "\<not> trailing_zeros w \<le> i"
  then have "[0..<64] ! i \<in> set (takeWhile (\<lambda>i. \<not> bit w i) [0..<64])"
    by (metis linorder_not_le nth_mem takeWhile_nth trailing_zeros_def)
  moreover have "i < 64" using bit_imp_le_length [OF b] by simp
  ultimately show False using b by (auto dest: set_takeWhileD)
qed

lemma offset_of_word: "start < pool_words \<Longrightarrow> off < pool_words \<Longrightarrow>
    ((start + off) mod pool_words + (pool_words - start)) mod pool_words = off"
proof -
  assume "start < pool_words" "off < pool_words"
  have "((start + off) mod pool_words + (pool_words - start)) mod pool_words = (start + off + (pool_words - start)) mod pool_words"
    by (simp only: mod_add_left_eq)
  also have "start + off + (pool_words - start) = off + pool_words" using \<open>start < pool_words\<close> by simp
  finally show ?thesis using \<open>off < pool_words\<close> by simp
qed

text \<open>The first word with a free slot, behind words without one, holds the nearest free slot.\<close>

lemma nearest_free:
  assumes "start < pool_words" "off < pool_words" "\<forall>k < off. masks ! ((start + k) mod pool_words) = 0"
    and "w = masks ! ((start + off) mod pool_words)" "w \<noteq> 0" "i = (start + off) mod pool_words * 64 + trailing_zeros w"
  shows "i \<in> free_in masks" "\<forall>j \<in> free_in masks. distance start i \<le> distance start j"
proof -
  note t = trailing_zeros_bit [OF assms(5)]
  have idx: "(start + off) mod pool_words < pool_words" by (simp add: pool_words_eq)
  show "i \<in> free_in masks" using t idx assms(4,6) by (simp add: free_in_def pool_words_def POOL_SIZE_def)
  have di: "distance start i = off * 64 + trailing_zeros w"
    using t(1) offset_of_word [OF assms(1,2)] by (simp add: distance_def assms(6))
  show "\<forall>j \<in> free_in masks. distance start i \<le> distance start j"
  proof
    fix j assume j: "j \<in> free_in masks"
    define k where "k = (j div 64 + (pool_words - start)) mod pool_words"
    have jk: "(start + k) mod pool_words = j div 64"
      unfolding k_def using assms(1) slot_word [of j] j by (intro cyclic_reach) (auto simp: free_in_def)
    then have "masks ! ((start + k) mod pool_words) \<noteq> 0" using j by (auto simp: free_in_def)
    then have "off \<le> k" using assms(3) linorder_not_le by blast
    moreover have "trailing_zeros w \<le> j mod 64" if "k = off"
      using trailing_zeros_le [of w "j mod 64"] j jk that assms(4) by (simp add: free_in_def)
    moreover have dj: "distance start j = k * 64 + j mod 64" by (simp add: distance_def k_def)
    ultimately show "distance start i \<le> distance start j" using t(1) di by (cases "k = off") auto
  qed
qed

lemma none_free:
  assumes "start < pool_words" "\<forall>k < pool_words. masks ! ((start + k) mod pool_words) = 0"
  shows "free_in masks = {}"
proof -
  have "masks ! j = 0" if "j < pool_words" for j
  proof -
    have "(j + (pool_words - start)) mod pool_words < pool_words" by (simp add: pool_words_eq)
    then show ?thesis using assms(2) cyclic_reach [OF assms(1) that] by metis
  qed
  then show ?thesis using slot_word by (auto simp: free_in_def)
qed

lemma acq_run_acquired:
  assumes "length masks = pool_words" "start < pool_words" "\<forall>k < off. masks ! ((start + k) mod pool_words) = 0"
  shows "off \<le> pool_words \<Longrightarrow> pool_words - off + 3 + 2 * spurious ws \<le> length ws \<Longrightarrow>
      acquired start (masks, hint) (acq_run ws (masks, hint) (Search start off))"
    and "off < pool_words \<Longrightarrow> w = masks ! ((start + off) mod pool_words) \<Longrightarrow> w \<noteq> 0 \<Longrightarrow>
      pool_words - off + 2 + 2 * spurious ws \<le> length ws \<Longrightarrow>
      acquired start (masks, hint) (acq_run ws (masks, hint) (Claim start off w))"
  using assms
proof (induction ws arbitrary: off w)
  case (Cons weak ws)
  {
    case 1
    let ?w = "masks ! ((start + off) mod pool_words)"
    show ?case
    proof (cases "off = pool_words")
      case True
      then show ?thesis using none_free [of start masks] "1.prems" by (simp add: acq_run_done acquired_def)
    next
      case False
      then have off: "off < pool_words" using "1.prems" by simp
      show ?thesis
      proof (cases "?w = 0")
        case True
        have "\<forall>k < Suc off. masks ! ((start + k) mod pool_words) = 0" using "1.prems"(5) True less_Suc_eq by auto
        then show ?thesis
          using Cons.IH(1) [of "Suc off"] "1.prems" off True by (auto simp: spurious_def Let_def split: if_splits)
      next
        case False
        then show ?thesis
          using Cons.IH(2) [of off ?w] "1.prems" off trailing_zeros_bit(1) [OF False]
          by (auto simp: spurious_def Let_def split: if_splits)
      qed
    qed
  next
    case 2
    show ?case
    proof (cases weak)
      case True
      then show ?thesis using Cons.IH(1) [of off] "2.prems" by (simp add: spurious_def Let_def)
    next
      case False
      let ?idx = "(start + off) mod pool_words" and ?b = "trailing_zeros w"
      obtain u us where ws: "ws = u # us" using "2.prems"(4) by (cases ws) (auto simp: spurious_def False)
      have "acq_run (weak # ws) (masks, hint) (Claim start off w) =
          ((masks[?idx := w AND NOT (push_bit ?b 1)], (?idx + 1) mod pool_words), Holds (?idx * 64 + ?b))"
        using False "2.prems"(2) by (simp add: ws Let_def acq_run_done)
      moreover note nearest_free [OF "2.prems"(6,1,7,2,3) refl]
      moreover have "?idx < pool_words" by (simp add: pool_words_eq)
      moreover note free_in_clear [OF "2.prems"(5) this trailing_zeros_bit(1) [OF "2.prems"(3)]]
      ultimately show ?thesis
        using trailing_zeros_bit(1) [OF "2.prems"(3)] "2.prems"(2,5) by (auto simp: acquired_def)
    qed
  }
qed simp_all

text \<open>C36. A thread that no other thread disturbs finishes \<^verbatim>\<open>acquire\<close>, however the weak compare-and-exchange
  behaves as long as it does not fail for ever: with at most \<open>k\<close> spurious failures, within
  \<^verbatim>\<open>POOL_SIZE / 64\<close>\<open> + 4 + 2k\<close> accesses to shared memory. If no slot is free it reports exhaustion and
  has changed nothing; otherwise it holds a free slot, the nearest one after the hint in cyclic
  order, exactly this slot is no longer free, and the hint is the word behind the slot's.\<close>

theorem acquire_alone:
  assumes "length masks = pool_words" "pool_words + 4 + 2 * spurious ws \<le> length ws"
  shows "acquired (hint mod pool_words) (masks, hint) (acq_run ws (masks, hint) Start)"
proof -
  obtain weak us where ws: "ws = weak # us" using assms(2) by (cases ws) auto
  have "hint mod pool_words < pool_words" by (simp add: pool_words_eq)
  moreover have "pool_words - 0 + 3 + 2 * spurious us \<le> length us"
    using assms(2) by (auto simp: ws spurious_def split: if_splits)
  ultimately show ?thesis using acq_run_acquired(1) [OF assms(1), of _ 0 us hint] by (simp add: ws)
qed

theorem acquire_alone_witness:
  "acquired (5 mod pool_words) (replicate pool_words (- 1), 5)
     (acq_run (replicate 2 False @ [True] @ replicate (pool_words + 4) False) (replicate pool_words (- 1), 5) Start) \<and>
   free_in (replicate pool_words (- 1)) \<noteq> {}"
proof
  show "acquired (5 mod pool_words) (replicate pool_words (- 1), 5)
     (acq_run (replicate 2 False @ [True] @ replicate (pool_words + 4) False) (replicate pool_words (- 1), 5) Start)"
    by (rule acquire_alone) (simp_all add: spurious_def)
  have "0 \<in> free_in (replicate pool_words (- 1))" by (simp add: free_in_def POOL_SIZE_def pool_words_def)
  then show "free_in (replicate pool_words (- 1)) \<noteq> {}" by blast
qed

section \<open>What a reference reads\<close>

definition pool_bufs :: "packet_pool \<Rightarrow> bool" where
  "pool_bufs pool \<longleftrightarrow> pool_inv pool \<and> length (pp_packets pool) = POOL_SIZE \<and>
     (\<forall>b \<in> set (pp_packets pool). length (pb_data b) = MAX_PACKET_SIZE)"

lemma acquire_ref_payload:
  assumes "pool_bufs pool" "free_in (pp_free_mask pool) \<noteq> {}"
  shows "\<exists>i pool'. acquire_ref data meta pool = Some (Some (i, pool')) \<and>
    packet_ref_payload i pool' = Some (take MAX_PACKET_SIZE data) \<and> pool_bufs pool'"
proof -
  obtain i p where a: "acquire pool = Some (i, p)"
    using acquire_None_iff [of pool] assms by (cases "acquire pool") (auto simp: pool_bufs_def)
  note f = acquire_from_Some [OF a [unfolded acquire_def]]
  have i: "i < POOL_SIZE" using f assms(1) by (simp add: pool_bufs_def free_in_def)
  have p: "pp_packets p = pp_packets pool" "pool_inv p" using f assms(1) by (auto simp: pool_bufs_def)
  have l: "length (pb_data (pp_packets pool ! i)) = MAX_PACKET_SIZE"
    using assms(1) i by (auto simp: pool_bufs_def)
  have tk: "take (min (length data) MAX_PACKET_SIZE) data = take MAX_PACKET_SIZE data" by (simp add: min_def)
  from l obtain b where b: "set_data data (pp_packets pool ! i) = Some b" "length (pb_data b) = MAX_PACKET_SIZE"
    "as_slice b = Some (take MAX_PACKET_SIZE data)"
    using tk by (simp add: set_data_def copy_at_def Let_def as_slice_def subslice_def)
  have "set ((pp_packets pool)[i := b]) \<subseteq> insert b (set (pp_packets pool))" by (rule set_update_subset_insert)
  then have "pool_bufs (p\<lparr>pp_packets := (pp_packets pool)[i := b], pp_meta := (pp_meta p)[i := meta]\<rparr>)"
    using p assms(1) b(2) unfolding pool_bufs_def pool_inv_def by auto
  then show ?thesis using a i p b assms(1)
    by (simp add: acquire_ref_def packet_ref_payload_def pool_bufs_def)
qed

end
