(* ===== verification/Deshred.thy ===== *)
theory Deshred
  imports Axdp_Prelude
begin

text \<open>
  \<^verbatim>\<open>src/examples/deshred.rs\<close>: the shreds of a slot are collected by index and decoded into
  entries once a segment is complete. The shreds themselves and their decoding belong to the
  libraries \<^verbatim>\<open>solana-ledger\<close> and \<^verbatim>\<open>bincode\<close>: the accessors, \<^verbatim>\<open>Shredder::deshred\<close> and
  \<^verbatim>\<open>bincode::deserialize\<close> are the fields of a record \<open>ledger\<close> that every operation takes. What
  \<^verbatim>\<open>DeshredTrait\<close> promises its client is the locale \<open>deshred_trait\<close>. The debug output on
  standard error is left out.
\<close>

section \<open>Shreds\<close>

datatype shred_type = Data | Code

record ('s, 'e) ledger =
  sh_slot :: "'s \<Rightarrow> u64"
  sh_index :: "'s \<Rightarrow> u32"
  sh_type :: "'s \<Rightarrow> shred_type"
  sh_data_complete :: "'s \<Rightarrow> bool"
  sh_last_in_slot :: "'s \<Rightarrow> bool"
  sh_payload :: "'s \<Rightarrow> u8 list"
  ld_deshred :: "u8 list list \<Rightarrow> u8 list option"
  ld_deserialize :: "u8 list \<Rightarrow> 'e list option"

definition shred_complete :: "('s, 'e, 'z) ledger_scheme \<Rightarrow> 's \<Rightarrow> bool" where
  "shred_complete L x \<longleftrightarrow> sh_data_complete L x \<or> sh_last_in_slot L x"

definition shred_idx :: "('s, 'e, 'z) ledger_scheme \<Rightarrow> 's \<Rightarrow> nat" where
  "shred_idx L x = unat (sh_index L x)"

section \<open>The shreds of a slot\<close>

datatype shred_status = Unknown | NotDataComplete | DataComplete

definition MAX_DATA_SHREDS_PER_SLOT :: nat where "MAX_DATA_SHREDS_PER_SLOT = 32768"

record 's slot_shreds =
  ss_slot :: u64
  ss_data_status :: "shred_status list"
  ss_data_shreds :: "'s option list"
  ss_code_shreds :: "'s list"

definition slot_shreds_new :: "u64 \<Rightarrow> 's slot_shreds" where
  "slot_shreds_new slot =
     \<lparr>ss_slot = slot, ss_data_status = replicate MAX_DATA_SHREDS_PER_SLOT Unknown,
      ss_data_shreds = replicate MAX_DATA_SHREDS_PER_SLOT None, ss_code_shreds = []\<rparr>"

definition slot_add_shred ::
  "('s, 'e, 'z) ledger_scheme \<Rightarrow> 's \<Rightarrow> 's slot_shreds \<Rightarrow> (bool \<times> 's slot_shreds) io_result" where
  "slot_add_shred L shred st =
     (let index = shred_idx L shred in
      case sh_type L shred of
        Data \<Rightarrow>
          if MAX_DATA_SHREDS_PER_SLOT \<le> index then Inr (False, st)
          else (case get index (ss_data_shreds st) of
              None \<Rightarrow> Inl (Panic ''index out of bounds'')
            | Some (Some _) \<Rightarrow> Inr (False, st)
            | Some None \<Rightarrow>
                if length (ss_data_status st) \<le> index then Inl (Panic ''index out of bounds'')
                else Inr (True, st\<lparr>ss_data_status := (ss_data_status st)[index :=
                       (if shred_complete L shred then DataComplete else NotDataComplete)],
                     ss_data_shreds := (ss_data_shreds st)[index := Some shred]\<rparr>))
      | Code \<Rightarrow>
          if \<exists>s \<in> set (ss_code_shreds st). sh_index L s = sh_index L shred then Inr (False, st)
          else Inr (True, st\<lparr>ss_code_shreds := ss_code_shreds st @ [shred]\<rparr>))"

text \<open>\<^verbatim>\<open>iter().position\<close>, and the scan backwards from the end of a segment.\<close>

fun position :: "('a \<Rightarrow> bool) \<Rightarrow> 'a list \<Rightarrow> nat option" where
  "position P [] = None"
| "position P (x # xs) = (if P x then Some 0 else map_option Suc (position P xs))"

fun scan_back :: "shred_status list \<Rightarrow> nat \<Rightarrow> nat option" where
  "scan_back status 0 = Some 0"
| "scan_back status (Suc s) =
     (case status ! s of
        DataComplete \<Rightarrow> Some (s + 1)
      | Unknown \<Rightarrow> None
      | NotDataComplete \<Rightarrow> scan_back status s)"

definition find_complete_segment :: "'s slot_shreds \<Rightarrow> (nat \<times> nat) option" where
  "find_complete_segment st =
     (case position (\<lambda>s. s = DataComplete) (ss_data_status st) of
        None \<Rightarrow> None
      | Some end' \<Rightarrow>
          (case scan_back (ss_data_status st) end' of
             None \<Rightarrow> None
           | Some start \<Rightarrow> Some (start, end')))"

text \<open>The loop that clears a decoded segment, over the indices it runs through.\<close>

fun clear_segment :: "nat list \<Rightarrow> 's slot_shreds \<Rightarrow> 's slot_shreds" where
  "clear_segment [] st = st"
| "clear_segment (i # is) st =
     clear_segment is (st\<lparr>ss_data_shreds := (ss_data_shreds st)[i := None],
       ss_data_status := (ss_data_status st)[i := Unknown]\<rparr>)"

definition try_deshred ::
  "('s, 'e, 'z) ledger_scheme \<Rightarrow> 's slot_shreds \<Rightarrow> (('e list \<times> u8 list) option \<times> 's slot_shreds) io_result" where
  "try_deshred L st =
     (case find_complete_segment st of
        None \<Rightarrow> Inr (None, st)
      | Some (start, end') \<Rightarrow>
          (case subslice start (end' + 1) (ss_data_shreds st) of
             None \<Rightarrow> Inl (Panic ''range end index out of range'')
           | Some shreds \<Rightarrow>
               if None \<in> set shreds then Inr (None, st)
               else (case ld_deshred L (map (\<lambda>s. sh_payload L (the s)) shreds) of
                   None \<Rightarrow> Inr (None, st)
                 | Some payload \<Rightarrow>
                     (case ld_deserialize L payload of
                        None \<Rightarrow> Inr (None, st)
                      | Some entries \<Rightarrow>
                          Inr (Some (entries, payload), clear_segment [start..<end' + 1] st)))))"

section \<open>The manager\<close>

type_synonym 'e deshredded = "u64 \<times> 'e list \<times> u8 list"

record 's deshred_manager =
  dm_slots :: "u64 \<rightharpoonup> 's slot_shreds"

definition dm_new :: "'s deshred_manager" where
  "dm_new = \<lparr>dm_slots = Map.empty\<rparr>"

definition dm_entry :: "u64 \<Rightarrow> 's deshred_manager \<Rightarrow> 's slot_shreds" where
  "dm_entry slot m = (case dm_slots m slot of None \<Rightarrow> slot_shreds_new slot | Some st \<Rightarrow> st)"

definition dm_add_shred ::
  "('s, 'e, 'z) ledger_scheme \<Rightarrow> 's \<Rightarrow> 's deshred_manager \<Rightarrow> ('e deshredded option \<times> 's deshred_manager) io_result" where
  "dm_add_shred L shred m =
     (let slot = sh_slot L shred in
      rbind (slot_add_shred L shred (dm_entry slot m)) (\<lambda>(new, st).
        if \<not> new then Inr (None, m\<lparr>dm_slots := (dm_slots m)(slot \<mapsto> st)\<rparr>)
        else rbind (try_deshred L st) (\<lambda>(out, st).
          Inr (map_option (\<lambda>(entries, payload). (slot, entries, payload)) out,
               m\<lparr>dm_slots := (dm_slots m)(slot \<mapsto> st)\<rparr>))))"

definition dm_cleanup_old_slots :: "u64 \<Rightarrow> u64 \<Rightarrow> 's deshred_manager \<Rightarrow> 's deshred_manager" where
  "dm_cleanup_old_slots current_slot lookback m =
     (let threshold = saturating_sub current_slot lookback in
      m\<lparr>dm_slots := (\<lambda>slot. if threshold \<le> slot then dm_slots m slot else None)\<rparr>)"

section \<open>The trait\<close>

text \<open>A sequence of shreds handed to any manager, with what each call returned.\<close>

fun trait_run ::
  "('s \<Rightarrow> 'm \<Rightarrow> ('o option \<times> 'm) io_result) \<Rightarrow> 's list \<Rightarrow> 'm \<Rightarrow> ('o option list \<times> 'm) io_result" where
  "trait_run add [] m = Inr ([], m)"
| "trait_run add (x # xs) m =
     rbind (add x m) (\<lambda>(out, m). rbind (trait_run add xs m) (\<lambda>(outs, m). Inr (out # outs, m)))"

definition fits :: "('s \<Rightarrow> u64) \<Rightarrow> (u8 list \<Rightarrow> 'e list option) \<Rightarrow> 's \<Rightarrow> 'e deshredded option \<Rightarrow> bool" where
  "fits slot_of deser x out \<longleftrightarrow>
     (case out of None \<Rightarrow> True | Some (s, es, p) \<Rightarrow> s = slot_of x \<and> deser p = Some es)"

locale deshred_trait =
  fixes slot_of :: "'s \<Rightarrow> u64"
    and deser :: "u8 list \<Rightarrow> 'e list option"
    and add :: "'s \<Rightarrow> 'm \<Rightarrow> ('e deshredded option \<times> 'm) io_result"
    and inv :: "'m \<Rightarrow> bool"
  assumes add_inv: "inv m \<Longrightarrow> add x m = Inr (out, m') \<Longrightarrow> inv m'"
    and add_fits: "inv m \<Longrightarrow> add x m = Inr (out, m') \<Longrightarrow> fits slot_of deser x out"
begin

lemma run_fits:
  assumes "trait_run add xs m = Inr (outs, m')" "inv m"
  shows "inv m' \<and> list_all2 (fits slot_of deser) xs outs"
  using assms
proof (induction xs arbitrary: m outs)
  case (Cons x xs)
  then show ?case
    by (fastforce simp: rbind_eq_Inr_iff dest: add_inv add_fits)
qed simp

end

text \<open>A manager that moreover never panics.\<close>

locale total_deshred_trait = deshred_trait +
  assumes add_total: "inv m \<Longrightarrow> \<exists>out m'. add x m = Inr (out, m')"
begin

lemma run_total:
  assumes "inv m"
  shows "\<exists>outs m'. trait_run add xs m = Inr (outs, m')"
  using assms
proof (induction xs arbitrary: m)
  case (Cons x xs)
  obtain out m1 where a: "add x m = Inr (out, m1)" using add_total [OF Cons.prems] by blast
  with Cons.IH [OF add_inv [OF Cons.prems a]] show ?case by fastforce
qed simp

end

section \<open>Which segment is found\<close>

lemma position_Some_iff:
  "position P xs = Some i \<longleftrightarrow> i < length xs \<and> P (xs ! i) \<and> (\<forall>j < i. \<not> P (xs ! j))"
proof (induction xs arbitrary: i)
  case (Cons x xs)
  then show ?case by (cases i) (auto simp: All_less_Suc2)
qed simp

lemma position_None_iff: "position P xs = None \<longleftrightarrow> (\<forall>x \<in> set xs. \<not> P x)"
  by (induction xs) auto

lemma scan_back_first:
  "\<forall>j < n. status ! j \<noteq> DataComplete \<Longrightarrow>
   scan_back status n = (if \<forall>j < n. status ! j = NotDataComplete then Some 0 else None)"
  by (induction n) (auto simp: less_Suc_eq split: shred_status.split)

text \<open>A segment is only ever found at the start of the slot: the scan backwards never meets the
  end of an earlier segment, because the end it starts from is the first one.\<close>

lemma find_complete_segment_iff:
  "find_complete_segment st = Some (a, e) \<longleftrightarrow>
     a = 0 \<and> e < length (ss_data_status st) \<and> ss_data_status st ! e = DataComplete \<and>
     (\<forall>j < e. ss_data_status st ! j = NotDataComplete)"
proof -
  have "(\<exists>k. position (\<lambda>s. s = DataComplete) (ss_data_status st) = Some k \<and> scan_back (ss_data_status st) k = Some a \<and> k = e) \<longleftrightarrow>
    a = 0 \<and> e < length (ss_data_status st) \<and> ss_data_status st ! e = DataComplete \<and>
     (\<forall>j < e. ss_data_status st ! j = NotDataComplete)"
    by (auto simp: position_Some_iff scan_back_first split: if_splits)
  then show ?thesis unfolding find_complete_segment_def by (auto split: option.splits)
qed

section \<open>Well-formed slots\<close>

definition entry_wf :: "('s, 'e, 'z) ledger_scheme \<Rightarrow> u64 \<Rightarrow> nat \<Rightarrow> shred_status \<Rightarrow> 's option \<Rightarrow> bool" where
  "entry_wf L slot i status shred \<longleftrightarrow>
     (case shred of
        None \<Rightarrow> status = Unknown
      | Some x \<Rightarrow> shred_idx L x = i \<and> sh_type L x = Data \<and> sh_slot L x = slot \<and>
          status = (if shred_complete L x then DataComplete else NotDataComplete))"

definition slot_wf :: "('s, 'e, 'z) ledger_scheme \<Rightarrow> 's slot_shreds \<Rightarrow> bool" where
  "slot_wf L st \<longleftrightarrow>
     length (ss_data_status st) = MAX_DATA_SHREDS_PER_SLOT \<and> length (ss_data_shreds st) = MAX_DATA_SHREDS_PER_SLOT \<and>
     (\<forall>i < MAX_DATA_SHREDS_PER_SLOT. entry_wf L (ss_slot st) i (ss_data_status st ! i) (ss_data_shreds st ! i)) \<and>
     (\<forall>x \<in> set (ss_code_shreds st). sh_type L x = Code \<and> sh_slot L x = ss_slot st) \<and>
     distinct (map (sh_index L) (ss_code_shreds st))"

definition dm_wf :: "('s, 'e, 'z) ledger_scheme \<Rightarrow> 's deshred_manager \<Rightarrow> bool" where
  "dm_wf L m \<longleftrightarrow> (\<forall>s st. dm_slots m s = Some st \<longrightarrow> ss_slot st = s \<and> slot_wf L st)"

lemma slot_wfD:
  assumes "slot_wf L st" "i < MAX_DATA_SHREDS_PER_SLOT"
  shows "ss_data_shreds st ! i = None \<Longrightarrow> ss_data_status st ! i = Unknown"
    and "ss_data_shreds st ! i = Some x \<Longrightarrow> shred_idx L x = i \<and> sh_type L x = Data \<and> sh_slot L x = ss_slot st \<and>
       ss_data_status st ! i = (if shred_complete L x then DataComplete else NotDataComplete)"
  using assms by (auto simp: slot_wf_def entry_wf_def dest!: spec [of _ i])

lemma slot_shreds_new_wf: "slot_wf L (slot_shreds_new s)" "ss_slot (slot_shreds_new s) = s"
  by (auto simp: slot_wf_def entry_wf_def slot_shreds_new_def)

lemma slot_add_shred_total:
  assumes "slot_wf L st" "sh_slot L x = ss_slot st"
  shows "\<exists>b st'. slot_add_shred L x st = Inr (b, st') \<and> slot_wf L st' \<and> ss_slot st' = ss_slot st"
proof -
  let ?i = "shred_idx L x"
  show ?thesis
  proof (cases "sh_type L x = Data \<and> ?i < MAX_DATA_SHREDS_PER_SLOT \<and> ss_data_shreds st ! ?i = None")
    case True
    define st' where "st' = st\<lparr>ss_data_status := (ss_data_status st)[?i :=
          (if shred_complete L x then DataComplete else NotDataComplete)],
        ss_data_shreds := (ss_data_shreds st)[?i := Some x]\<rparr>"
    have "slot_wf L st'"
      using assms True by (auto simp: st'_def slot_wf_def nth_list_update entry_wf_def [of _ _ _ _ "Some x"])
    moreover have "slot_add_shred L x st = Inr (True, st')"
      using assms True by (simp add: slot_add_shred_def get_def slot_wf_def Let_def st'_def)
    moreover have "ss_slot st' = ss_slot st" by (simp add: st'_def)
    ultimately show ?thesis by blast
  next
    case False
    then show ?thesis using assms
      by (cases "sh_type L x") (auto simp: slot_add_shred_def get_def slot_wf_def Let_def)
  qed
qed

lemma clear_segment_simps [simp]:
  "ss_slot (clear_segment is st) = ss_slot st"
  "ss_code_shreds (clear_segment is st) = ss_code_shreds st"
  "length (ss_data_status (clear_segment is st)) = length (ss_data_status st)"
  "length (ss_data_shreds (clear_segment is st)) = length (ss_data_shreds st)"
  by (induction "is" st rule: clear_segment.induct) auto

lemma clear_segment_nth:
  "i < length (ss_data_status st) \<Longrightarrow>
     ss_data_status (clear_segment is st) ! i = (if i \<in> set is then Unknown else ss_data_status st ! i)"
  "i < length (ss_data_shreds st) \<Longrightarrow>
     ss_data_shreds (clear_segment is st) ! i = (if i \<in> set is then None else ss_data_shreds st ! i)"
  by (induction "is" st rule: clear_segment.induct) (auto simp: nth_list_update)

lemma clear_segment_wf: "slot_wf L st \<Longrightarrow> slot_wf L (clear_segment is st)"
  by (auto simp: slot_wf_def clear_segment_nth entry_wf_def [of _ _ _ _ None])

text \<open>The shreds held for the indices up to a bound, once they are all there.\<close>

definition segment :: "nat \<Rightarrow> 's slot_shreds \<Rightarrow> 's list" where
  "segment e st = map the (take (e + 1) (ss_data_shreds st))"

lemma length_segment: "slot_wf L st \<Longrightarrow> e < MAX_DATA_SHREDS_PER_SLOT \<Longrightarrow> length (segment e st) = e + 1"
  by (simp add: segment_def slot_wf_def)

lemma segment_present:
  assumes "slot_wf L st" "find_complete_segment st = Some (a, e)" "i \<le> e"
  shows "ss_data_shreds st ! i \<noteq> None" "e < MAX_DATA_SHREDS_PER_SLOT"
    "ss_data_shreds st ! i = Some (segment e st ! i)"
proof -
  have e: "e < MAX_DATA_SHREDS_PER_SLOT" using assms by (simp add: find_complete_segment_iff slot_wf_def)
  have "ss_data_status st ! i \<noteq> Unknown"
    using assms(2,3) by (cases "i = e") (auto simp: find_complete_segment_iff)
  then show n: "ss_data_shreds st ! i \<noteq> None" using slot_wfD(1) [OF assms(1), of i] e assms(3) by auto
  show "e < MAX_DATA_SHREDS_PER_SLOT" by (fact e)
  show "ss_data_shreds st ! i = Some (segment e st ! i)"
    using n e assms(1,3) by (simp add: segment_def slot_wf_def)
qed

lemma try_deshred_wf:
  assumes "slot_wf L st"
  shows "try_deshred L st =
    (case find_complete_segment st of
       None \<Rightarrow> Inr (None, st)
     | Some (_, e) \<Rightarrow>
         (case ld_deshred L (map (sh_payload L) (segment e st)) of
            None \<Rightarrow> Inr (None, st)
          | Some p \<Rightarrow>
              (case ld_deserialize L p of
                 None \<Rightarrow> Inr (None, st)
               | Some es \<Rightarrow> Inr (Some (es, p), clear_segment [0..<e + 1] st))))"
proof (cases "find_complete_segment st")
  case None
  then show ?thesis by (simp add: try_deshred_def)
next
  case (Some ae)
  then obtain e where f: "find_complete_segment st = Some (0, e)"
    by (cases ae) (auto simp: find_complete_segment_iff)
  note p = segment_present [OF assms f]
  have l: "e + 1 \<le> length (ss_data_shreds st)" using p(2) [of e] assms by (simp add: slot_wf_def)
  have "None \<notin> set (take (e + 1) (ss_data_shreds st))"
  proof
    assume "None \<in> set (take (e + 1) (ss_data_shreds st))"
    then obtain i where "i < e + 1" "ss_data_shreds st ! i = None" by (auto simp: in_set_conv_nth)
    then show False using p(1) [of i] by simp
  qed
  moreover have "map (\<lambda>s. sh_payload L (the s)) (take (e + 1) (ss_data_shreds st)) = map (sh_payload L) (segment e st)"
    by (simp add: segment_def)
  ultimately show ?thesis using f l by (simp add: try_deshred_def subslice_def del: upt_Suc)
qed

lemma try_deshred_total:
  assumes "slot_wf L st"
  shows "\<exists>out st'. try_deshred L st = Inr (out, st') \<and> slot_wf L st' \<and> ss_slot st' = ss_slot st \<and>
    (\<forall>es p. out = Some (es, p) \<longrightarrow> ld_deserialize L p = Some es)"
  unfolding try_deshred_wf [OF assms]
  using assms clear_segment_wf [OF assms] by (auto split: option.split prod.split simp del: upt_Suc)

section \<open>The manager keeps its slots well-formed\<close>

lemma dm_slot_wf:
  assumes "dm_wf L m"
  shows "slot_wf L (dm_entry s m)" "ss_slot (dm_entry s m) = s"
  using assms slot_shreds_new_wf by (auto simp: dm_entry_def dm_wf_def split: option.split)

lemma dm_add_shred_total:
  assumes "dm_wf L m"
  shows "\<exists>out m'. dm_add_shred L x m = Inr (out, m') \<and> dm_wf L m' \<and> fits (sh_slot L) (ld_deserialize L) x out"
proof -
  let ?st = "dm_entry (sh_slot L x) m"
  note w = dm_slot_wf [OF assms, of "sh_slot L x"]
  obtain b st1 where a: "slot_add_shred L x ?st = Inr (b, st1)" "slot_wf L st1" "ss_slot st1 = ss_slot ?st"
    using slot_add_shred_total [OF w(1), of x] w(2) by auto
  obtain out st2 where t: "try_deshred L st1 = Inr (out, st2)" "slot_wf L st2" "ss_slot st2 = ss_slot st1"
    "\<forall>es p. out = Some (es, p) \<longrightarrow> ld_deserialize L p = Some es"
    using try_deshred_total [OF a(2)] by blast
  show ?thesis
    using assms a t w(2) by (cases b) (auto simp: dm_add_shred_def Let_def dm_wf_def fits_def split: option.split)
qed

lemma dm_cleanup_wf: "dm_wf L m \<Longrightarrow> dm_wf L (dm_cleanup_old_slots c l m)"
  by (auto simp: dm_wf_def dm_cleanup_old_slots_def Let_def split: if_splits)

interpretation dm: total_deshred_trait "sh_slot L" "ld_deserialize L" "dm_add_shred L" "dm_wf L" for L
proof unfold_locales
  fix m m' :: "'a deshred_manager" and x :: 'a and out
  assume "dm_wf L m"
  note t = dm_add_shred_total [OF this, of x]
  then show "\<exists>out m'. dm_add_shred L x m = Inr (out, m')" by blast
  assume "dm_add_shred L x m = Inr (out, m')"
  with t show "dm_wf L m'" "fits (sh_slot L) (ld_deserialize L) x out" by auto
qed


datatype 's dm_op = Add 's | Cleanup u64 u64

fun dm_ops :: "('s, 'e, 'z) ledger_scheme \<Rightarrow> 's dm_op list \<Rightarrow> 's deshred_manager \<Rightarrow> ('e deshredded option list \<times> 's deshred_manager) io_result" where
  "dm_ops L [] m = Inr ([], m)"
| "dm_ops L (Add x # ops) m =
     rbind (dm_add_shred L x m) (\<lambda>(out, m). rbind (dm_ops L ops m) (\<lambda>(outs, m). Inr (out # outs, m)))"
| "dm_ops L (Cleanup c l # ops) m =
     rbind (dm_ops L ops (dm_cleanup_old_slots c l m)) (\<lambda>(outs, m). Inr (None # outs, m))"

fun op_fits :: "('s, 'e, 'z) ledger_scheme \<Rightarrow> 's dm_op \<Rightarrow> 'e deshredded option \<Rightarrow> bool" where
  "op_fits L (Add x) out \<longleftrightarrow> fits (sh_slot L) (ld_deserialize L) x out"
| "op_fits L (Cleanup c l) out \<longleftrightarrow> out = None"

lemma dm_ops_total:
  "dm_wf L m \<Longrightarrow> \<exists>outs m'. dm_ops L ops m = Inr (outs, m') \<and> dm_wf L m' \<and> list_all2 (op_fits L) ops outs"
proof (induction ops arbitrary: m)
  case (Cons op ops)
  show ?case
  proof (cases op)
    case (Add x)
    obtain out m1 where a: "dm_add_shred L x m = Inr (out, m1)" "dm_wf L m1" "fits (sh_slot L) (ld_deserialize L) x out"
      using dm_add_shred_total [OF Cons.prems] by blast
    moreover obtain outs m2 where "dm_ops L ops m1 = Inr (outs, m2)" "dm_wf L m2" "list_all2 (op_fits L) ops outs"
      using Cons.IH [OF a(2)] by blast
    ultimately show ?thesis using Add by simp
  next
    case (Cleanup c l)
    obtain outs m2 where "dm_ops L ops (dm_cleanup_old_slots c l m) = Inr (outs, m2)" "dm_wf L m2"
      "list_all2 (op_fits L) ops outs"
      using Cons.IH [OF dm_cleanup_wf [OF Cons.prems]] by blast
    then show ?thesis using Cleanup by simp
  qed
qed simp

lemma dm_new_wf: "dm_wf L dm_new"
  by (simp add: dm_wf_def dm_new_def)

text \<open>C33. The deshred manager is type-safe: whatever sequence of shreds it is given, and whenever
  old slots are cleaned up, no index and no range is out of bounds, every slot stays filed under
  its number with statuses that agree with the shreds held, and what a call returns belongs to the
  slot of its shred and is the decoding of the payload returned with it.\<close>

theorem deshred_manager_type_safe:
  "\<exists>outs m. dm_ops L ops dm_new = Inr (outs, m) \<and> dm_wf L m \<and> list_all2 (op_fits L) ops outs"
  using dm_ops_total [OF dm_new_wf] .

section \<open>Only the first segment of a slot is decoded\<close>

lemma try_deshred_Some:
  assumes "slot_wf L st" "try_deshred L st = Inr (Some (es, p), st')"
  shows "\<exists>e. find_complete_segment st = Some (0, e) \<and> ld_deshred L (map (sh_payload L) (segment e st)) = Some p \<and>
    ld_deserialize L p = Some es \<and> st' = clear_segment [0..<e + 1] st"
  using assms(2) unfolding try_deshred_wf [OF assms(1)]
  by (auto split: option.splits prod.splits simp: find_complete_segment_iff simp del: upt_Suc)

lemma segment_facts:
  assumes "slot_wf L st" "find_complete_segment st = Some (0, e)" "i \<le> e"
  shows "shred_idx L (segment e st ! i) = i" "sh_type L (segment e st ! i) = Data"
    "sh_slot L (segment e st ! i) = ss_slot st" "shred_complete L (segment e st ! i) \<longleftrightarrow> i = e"
proof -
  note p = segment_present [OF assms]
  have "i < MAX_DATA_SHREDS_PER_SLOT" using p(2) assms(3) by simp
  note w = slot_wfD(2) [OF assms(1) this p(3)]
  then show "shred_idx L (segment e st ! i) = i" "sh_type L (segment e st ! i) = Data"
    "sh_slot L (segment e st ! i) = ss_slot st" by simp_all
  show "shred_complete L (segment e st ! i) \<longleftrightarrow> i = e"
    using w assms(2,3) by (cases "i = e") (auto simp: find_complete_segment_iff split: if_splits)
qed

text \<open>The slot waits for the shred with index 0.\<close>

definition lacks_first :: "u64 \<Rightarrow> 's deshred_manager \<Rightarrow> bool" where
  "lacks_first s m \<longleftrightarrow> (\<forall>st. dm_slots m s = Some st \<longrightarrow> ss_data_status st ! 0 = Unknown)"

lemma MAX_pos: "0 < MAX_DATA_SHREDS_PER_SLOT"
  by (simp add: MAX_DATA_SHREDS_PER_SLOT_def)

lemma lacks_first_silent: "ss_data_status st ! 0 = Unknown \<Longrightarrow> find_complete_segment st = None"
proof (rule ccontr)
  assume u: "ss_data_status st ! 0 = Unknown" and "find_complete_segment st \<noteq> None"
  then obtain a e where "find_complete_segment st = Some (a, e)" by auto
  then show False using u by (cases "e = 0") (auto simp: find_complete_segment_iff)
qed

lemma slot_add_keeps_lack:
  assumes "slot_add_shred L x st = Inr (b, st')" "ss_data_status st ! 0 = Unknown"
    "\<not> (sh_type L x = Data \<and> sh_index L x = 0)"
  shows "ss_data_status st' ! 0 = Unknown"
  using assms
  by (auto simp: slot_add_shred_def Let_def shred_idx_def unat_eq_zero split: shred_type.splits option.splits if_splits)

lemma dm_entry_lack: "lacks_first s m \<Longrightarrow> ss_data_status (dm_entry s m) ! 0 = Unknown"
  using MAX_pos by (auto simp: lacks_first_def dm_entry_def slot_shreds_new_def split: option.split)

lemma dm_add_lack:
  assumes "lacks_first s m" "\<not> (sh_slot L x = s \<and> sh_type L x = Data \<and> sh_index L x = 0)"
    and "dm_add_shred L x m = Inr (out, m')"
  shows "lacks_first s m' \<and> (\<forall>es p. out \<noteq> Some (s, es, p))"
proof (cases "sh_slot L x = s")
  case False
  then show ?thesis using assms
    by (auto simp: dm_add_shred_def Let_def rbind_eq_Inr_iff lacks_first_def split: if_splits)
next
  case True
  obtain b st1 where a: "slot_add_shred L x (dm_entry s m) = Inr (b, st1)"
    using assms(3) True by (auto simp: dm_add_shred_def Let_def rbind_eq_Inr_iff)
  have "ss_data_status st1 ! 0 = Unknown"
    using slot_add_keeps_lack [OF a dm_entry_lack [OF assms(1)]] assms(2) True by blast
  moreover from lacks_first_silent [OF this] have "try_deshred L st1 = Inr (None, st1)" by (simp add: try_deshred_def)
  ultimately show ?thesis using assms(3) a True
    by (auto simp: dm_add_shred_def Let_def lacks_first_def split: if_splits)
qed

lemma run_lack:
  assumes "trait_run (dm_add_shred L) xs m = Inr (outs, m')" "lacks_first s m"
    and "\<forall>x \<in> set xs. \<not> (sh_slot L x = s \<and> sh_type L x = Data \<and> sh_index L x = 0)"
  shows "\<forall>out \<in> set outs. \<forall>es p. out \<noteq> Some (s, es, p)"
  using assms
proof (induction xs arbitrary: m outs)
  case (Cons x xs)
  then obtain out m1 outs1 where a: "dm_add_shred L x m = Inr (out, m1)"
    "trait_run (dm_add_shred L) xs m1 = Inr (outs1, m')" "outs = out # outs1"
    by (auto simp: rbind_eq_Inr_iff)
  note l = dm_add_lack [OF Cons.prems(2) _ a(1)]
  show ?case using Cons.IH [OF a(2)] l Cons.prems(3) a(3) by auto
qed simp

lemma dm_add_Some:
  assumes "dm_wf L m" "dm_add_shred L x m = Inr (Some (s, es, p), m')"
  obtains st e where "slot_wf L st" "ss_slot st = s" "find_complete_segment st = Some (0, e)"
    "ld_deshred L (map (sh_payload L) (segment e st)) = Some p" "ld_deserialize L p = Some es"
    "dm_slots m' s = Some (clear_segment [0..<e + 1] st)"
proof -
  obtain b st where a: "slot_add_shred L x (dm_entry (sh_slot L x) m) = Inr (b, st)"
    using assms(2) by (cases "slot_add_shred L x (dm_entry (sh_slot L x) m)") (auto simp: dm_add_shred_def Let_def)
  have b: "b" using assms(2) a by (cases b) (simp_all add: dm_add_shred_def Let_def)
  obtain out st' where t: "try_deshred L st = Inr (out, st')"
    using assms(2) a b by (cases "try_deshred L st") (auto simp: dm_add_shred_def Let_def)
  have r: "out = Some (es, p)" "s = sh_slot L x" "m' = m\<lparr>dm_slots := (dm_slots m)(s \<mapsto> st')\<rparr>"
    using assms(2) a b t by (auto simp: dm_add_shred_def Let_def)
  note w = dm_slot_wf [OF assms(1), of "sh_slot L x"]
  have st: "slot_wf L st" "ss_slot st = s" using slot_add_shred_total [OF w(1), of x] w(2) a r(2) by auto
  obtain e where "find_complete_segment st = Some (0, e)"
    "ld_deshred L (map (sh_payload L) (segment e st)) = Some p" "ld_deserialize L p = Some es"
    "st' = clear_segment [0..<e + 1] st"
    using try_deshred_Some [OF st(1) t [unfolded r(1)]] by blast
  with that [OF st] r(3) show thesis by simp
qed

text \<open>C38. What is decoded is the first segment of a slot: the data shreds from index 0 up to the first
  one marked complete, in order. After that nothing of the slot is ever decoded again, whatever
  shreds arrive, until shred 0 itself is received once more: the cleared indices count as a gap
  before every later segment.\<close>

theorem deshred_first_segment_only:
  assumes "dm_wf L m" "dm_add_shred L x m = Inr (Some (s, es, p), m')"
    and "\<forall>y \<in> set later. \<not> (sh_slot L y = s \<and> sh_type L y = Data \<and> sh_index L y = 0)"
  shows "(\<exists>ys. ys \<noteq> [] \<and> map (shred_idx L) ys = [0..<length ys] \<and>
      (\<forall>y \<in> set ys. sh_slot L y = s \<and> sh_type L y = Data) \<and>
      shred_complete L (last ys) \<and> (\<forall>y \<in> set (butlast ys). \<not> shred_complete L y) \<and>
      ld_deshred L (map (sh_payload L) ys) = Some p \<and> ld_deserialize L p = Some es) \<and>
    (\<exists>outs m''. trait_run (dm_add_shred L) later m' = Inr (outs, m'') \<and>
      (\<forall>out \<in> set outs. \<forall>es p. out \<noteq> Some (s, es, p)))"
proof -
  obtain st e where w: "slot_wf L st" "ss_slot st = s" and f: "find_complete_segment st = Some (0, e)"
    and d: "ld_deshred L (map (sh_payload L) (segment e st)) = Some p" "ld_deserialize L p = Some es"
    and m': "dm_slots m' s = Some (clear_segment [0..<e + 1] st)"
    by (rule dm_add_Some [OF assms(1,2)])
  have len: "length (segment e st) = e + 1" using length_segment [OF w(1)] segment_present(2) [OF w(1) f, of 0] by simp
  note g = segment_facts [OF w(1) f]
  have ne: "segment e st \<noteq> []" using len by auto
  have "map (shred_idx L) (segment e st) = [0..<length (segment e st)]"
    by (rule nth_equalityI) (simp_all add: len g(1) del: upt_Suc)
  moreover have "\<forall>y \<in> set (segment e st). sh_slot L y = s \<and> sh_type L y = Data"
    using g(2,3) w(2) len by (auto simp: in_set_conv_nth)
  moreover have "shred_complete L (last (segment e st))" using g(4) [of e] len ne by (simp add: last_conv_nth)
  moreover have "\<forall>y \<in> set (butlast (segment e st)). \<not> shred_complete L y"
    using g(4) len by (auto simp: in_set_conv_nth nth_butlast)
  ultimately have first: "\<exists>ys. ys \<noteq> [] \<and> map (shred_idx L) ys = [0..<length ys] \<and>
      (\<forall>y \<in> set ys. sh_slot L y = s \<and> sh_type L y = Data) \<and>
      shred_complete L (last ys) \<and> (\<forall>y \<in> set (butlast ys). \<not> shred_complete L y) \<and>
      ld_deshred L (map (sh_payload L) ys) = Some p \<and> ld_deserialize L p = Some es" using ne d by blast
  have "lacks_first s m'"
    using m' w(1) MAX_pos by (simp add: lacks_first_def clear_segment_nth slot_wf_def del: upt_Suc)
  moreover obtain outs m'' where r: "trait_run (dm_add_shred L) later m' = Inr (outs, m'')"
    using dm.run_total [OF dm.add_inv [OF assms(1,2)]] by blast
  ultimately show ?thesis using first run_lack [OF r _ assms(3)] by blast
qed


text \<open>A ledger for examples: a shred of slot 7 is its index, its end mark and its payload; decoding
  is concatenation and every byte is an entry.\<close>

definition example_ledger :: "(u32 \<times> bool \<times> u8 list, u8) ledger" where
  "example_ledger = \<lparr>sh_slot = (\<lambda>_. 7), sh_index = fst, sh_type = (\<lambda>_. Data), sh_data_complete = (\<lambda>x. fst (snd x)),
     sh_last_in_slot = (\<lambda>_. False), sh_payload = (\<lambda>x. snd (snd x)), ld_deshred = (\<lambda>ps. Some (concat ps)), ld_deserialize = Some\<rparr>"

lemma example_decodes: "\<exists>m. dm_add_shred example_ledger (0, True, [1]) dm_new = Inr (Some (7, [1], [1]), m)"
proof -
  obtain n where n: "MAX_DATA_SHREDS_PER_SLOT = Suc n" using MAX_pos by (cases MAX_DATA_SHREDS_PER_SLOT) auto
  let ?st = "\<lparr>ss_slot = 7, ss_data_status = DataComplete # replicate n Unknown,
    ss_data_shreds = Some (0 :: u32, True, [1 :: u8]) # replicate n None, ss_code_shreds = []\<rparr>"
  have "slot_add_shred example_ledger (0, True, [1]) (slot_shreds_new 7) = Inr (True, ?st)"
    by (simp add: slot_add_shred_def example_ledger_def shred_idx_def shred_complete_def slot_shreds_new_def n get_def Let_def)
  moreover have "find_complete_segment ?st = Some (0, 0)" by (simp add: find_complete_segment_def)
  then have "try_deshred example_ledger ?st = Inr (Some ([1], [1]), clear_segment [0..<1] ?st)"
    by (simp add: try_deshred_def example_ledger_def subslice_def)
  ultimately show ?thesis
    by (simp add: dm_add_shred_def dm_entry_def dm_new_def Let_def) (simp add: example_ledger_def)
qed

theorem deshred_first_segment_only_witness:
  "\<exists>m. dm_add_shred example_ledger (0, True, [1]) dm_new = Inr (Some (7, [1], [1]), m) \<and>
    (\<exists>outs m''. trait_run (dm_add_shred example_ledger) [(1, False, [2]), (2, True, [3])] m = Inr (outs, m'') \<and>
      (\<forall>out \<in> set outs. \<forall>es p. out \<noteq> Some (7, es, p)))"
proof -
  obtain m where m: "dm_add_shred example_ledger (0, True, [1]) dm_new = Inr (Some (7, [1], [1]), m)"
    using example_decodes by blast
  have "\<forall>y \<in> set [(1, False, [2]), (2, True, [3])]. \<not> (sh_slot example_ledger y = 7 \<and> sh_type example_ledger y = Data \<and> sh_index example_ledger y = 0)"
    by (simp add: example_ledger_def)
  from deshred_first_segment_only [OF dm_new_wf m this] m show ?thesis by blast
qed

end
