(* ===== verification/Deshred_Sharded.thy ===== *)
theory Deshred_Sharded
  imports Deshred
begin

text \<open>
  \<^verbatim>\<open>src/examples/deshred_sharded.rs\<close>: the manager without locks, one per thread. A slot keeps a
  bit set of the shreds received, the shreds themselves, and the indices of the shreds that end a
  segment in the order they arrived; the slots live in a window of 128 places. The theory relates
  it to the manager of \<^verbatim>\<open>deshred.rs\<close>: on the first segment of a slot, received in any order, both
  return the same, and it shows where the two part.
\<close>

section \<open>The shreds of a slot\<close>

definition SLOT_WINDOW_SIZE :: nat where "SLOT_WINDOW_SIZE = 128"

definition MAX_SHREDS_PER_SLOT :: nat where "MAX_SHREDS_PER_SLOT = 512"

record 's slot_compact =
  sc_slot :: u64
  sc_received_mask :: "u64 list"
  sc_shreds :: "'s option list"
  sc_segment_ends :: "u32 list"
  sc_last_processed :: u32

definition slot_compact_new :: "u64 \<Rightarrow> 's slot_compact" where
  "slot_compact_new slot =
     \<lparr>sc_slot = slot, sc_received_mask = replicate (MAX_SHREDS_PER_SLOT div 64) 0, sc_shreds = [],
      sc_segment_ends = [], sc_last_processed = 0\<rparr>"

text \<open>\<^verbatim>\<open>Vec::resize\<close> with \<^verbatim>\<open>None\<close>, when the vector is too short for an index.\<close>

definition grow_to :: "nat \<Rightarrow> 'a option list \<Rightarrow> 'a option list" where
  "grow_to index xs = (if length xs \<le> index then xs @ replicate (index + 1 - length xs) None else xs)"

definition compact_add_shred ::
  "('s, 'e, 'z) ledger_scheme \<Rightarrow> 's \<Rightarrow> 's slot_compact \<Rightarrow> (bool \<times> 's slot_compact) io_result" where
  "compact_add_shred L shred c =
     (let index = shred_idx L shred; word_idx = index div 64; bit_idx = index mod 64 in
      if MAX_SHREDS_PER_SLOT \<le> index then Inr (False, c)
      else (case get word_idx (sc_received_mask c) of
          None \<Rightarrow> Inl (Panic ''index out of bounds'')
        | Some w \<Rightarrow>
            if w AND push_bit bit_idx 1 \<noteq> 0 then Inr (False, c)
            else Inr (True, c\<lparr>sc_received_mask := (sc_received_mask c)[word_idx := w OR push_bit bit_idx 1],
                   sc_segment_ends := sc_segment_ends c @
                     (if sh_type L shred = Data \<and> shred_complete L shred then [of_nat index] else []),
                   sc_shreds := (grow_to index (sc_shreds c))[index := Some shred]\<rparr>)))"

text \<open>The loop that looks for a missing shred.\<close>

fun all_received :: "u64 list \<Rightarrow> nat list \<Rightarrow> bool io_result" where
  "all_received masks [] = Inr True"
| "all_received masks (idx # is) =
     (case get (idx div 64) masks of
        None \<Rightarrow> Inl (Panic ''index out of bounds'')
      | Some w \<Rightarrow> if w AND push_bit (idx mod 64) 1 = 0 then Inr False else all_received masks is)"

definition try_deshred_fast ::
  "('s, 'e, 'z) ledger_scheme \<Rightarrow> 's slot_compact \<Rightarrow> (('e list \<times> u8 list) option \<times> 's slot_compact) io_result" where
  "try_deshred_fast L c =
     (case sc_segment_ends c of
        [] \<Rightarrow> Inr (None, c)
      | e # ends \<Rightarrow>
          let end_idx = unat e; start_idx = unat (sc_last_processed c) in
          rbind (all_received (sc_received_mask c) [start_idx..<end_idx + 1]) (\<lambda>present.
            if \<not> present then Inr (None, c)
            else (case subslice start_idx (end_idx + 1) (sc_shreds c) of
                None \<Rightarrow> Inl (Panic ''slice index starts after its end'')
              | Some shreds \<Rightarrow>
                  (case ld_deshred L (List.map_filter (map_option (sh_payload L)) shreds) of
                     None \<Rightarrow> Inr (None, c)
                   | Some deshredded \<Rightarrow>
                       (case ld_deserialize L deshredded of
                          None \<Rightarrow> Inr (None, c)
                        | Some entries \<Rightarrow>
                            Inr (Some (entries, deshredded),
                              c\<lparr>sc_segment_ends := ends, sc_last_processed := of_nat (end_idx + 1),
                                sc_shreds := fold (\<lambda>idx xs. xs[idx := None]) [start_idx..<end_idx + 1] (sc_shreds c)\<rparr>))))))"

section \<open>The managers\<close>

record 's deshred_local =
  dl_slots :: "'s slot_compact option list"
  dl_current_slot :: u64

definition dl_new :: "'s deshred_local" where
  "dl_new = \<lparr>dl_slots = replicate SLOT_WINDOW_SIZE None, dl_current_slot = 0\<rparr>"

definition dl_entry :: "u64 \<Rightarrow> 's slot_compact option \<Rightarrow> 's slot_compact" where
  "dl_entry slot entry =
     (case entry of
        Some c \<Rightarrow> if sc_slot c = slot then c else slot_compact_new slot
      | None \<Rightarrow> slot_compact_new slot)"

definition dl_add_shred ::
  "('s, 'e, 'z) ledger_scheme \<Rightarrow> 's \<Rightarrow> 's deshred_local \<Rightarrow> ('e deshredded option \<times> 's deshred_local) io_result" where
  "dl_add_shred L shred m =
     (let slot = sh_slot L shred; slot_idx = unat slot mod SLOT_WINDOW_SIZE in
      case get slot_idx (dl_slots m) of
        None \<Rightarrow> Inl (Panic ''index out of bounds'')
      | Some entry \<Rightarrow>
          rbind (compact_add_shred L shred (dl_entry slot entry)) (\<lambda>(new, c).
            if \<not> new then Inr (None, \<lparr>dl_slots = (dl_slots m)[slot_idx := Some c], dl_current_slot = slot\<rparr>)
            else rbind (try_deshred_fast L c) (\<lambda>(out, c).
              Inr (map_option (\<lambda>(entries, payload). (slot, entries, payload)) out,
                   \<lparr>dl_slots = (dl_slots m)[slot_idx := Some c], dl_current_slot = slot\<rparr>))))"

definition dl_cleanup_old_slots :: "u64 \<Rightarrow> 's deshred_local \<Rightarrow> 's deshred_local" where
  "dl_cleanup_old_slots current_slot m =
     (let threshold = saturating_sub current_slot (of_nat SLOT_WINDOW_SIZE) in
      m\<lparr>dl_slots := map (\<lambda>entry. case entry of
          Some c \<Rightarrow> if sc_slot c < threshold then None else Some c
        | None \<Rightarrow> None) (dl_slots m)\<rparr>)"

record 's deshred_sharded =
  ds_managers :: "'s deshred_local list"

definition sharded_new :: "nat \<Rightarrow> 's deshred_sharded" where
  "sharded_new num_threads = \<lparr>ds_managers = replicate num_threads dl_new\<rparr>"

text \<open>\<^verbatim>\<open>get_local\<close> lends one manager: what the borrower does to it ends up in its place.\<close>

definition get_local ::
  "nat \<Rightarrow> ('s deshred_local \<Rightarrow> ('a \<times> 's deshred_local) io_result) \<Rightarrow> 's deshred_sharded \<Rightarrow> ('a \<times> 's deshred_sharded) io_result" where
  "get_local thread_id f m =
     (case get thread_id (ds_managers m) of
        None \<Rightarrow> Inl (Panic ''index out of bounds'')
      | Some l \<Rightarrow> rbind (f l) (\<lambda>(a, l). Inr (a, m\<lparr>ds_managers := (ds_managers m)[thread_id := l]\<rparr>)))"

section \<open>The contract of the trait\<close>

definition compact_wf :: "'s slot_compact \<Rightarrow> bool" where
  "compact_wf c \<longleftrightarrow> length (sc_received_mask c) = MAX_SHREDS_PER_SLOT div 64 \<and>
     (\<forall>e \<in> set (sc_segment_ends c). unat e < MAX_SHREDS_PER_SLOT \<and> unat e < length (sc_shreds c))"

definition dl_wf :: "'s deshred_local \<Rightarrow> bool" where
  "dl_wf m \<longleftrightarrow> length (dl_slots m) = SLOT_WINDOW_SIZE \<and>
     (\<forall>i < SLOT_WINDOW_SIZE. \<forall>c. dl_slots m ! i = Some c \<longrightarrow> compact_wf c \<and> unat (sc_slot c) mod SLOT_WINDOW_SIZE = i)"

lemma slot_compact_new_wf: "compact_wf (slot_compact_new s)"
  by (simp add: compact_wf_def slot_compact_new_def)

lemma length_grow_to: "length (grow_to i xs) = max (length xs) (i + 1)"
  by (simp add: grow_to_def)

lemma compact_add_wf:
  assumes "compact_wf c" "compact_add_shred L x c = Inr (b, c')"
  shows "compact_wf c' \<and> sc_slot c' = sc_slot c"
proof (cases b)
  case False
  then show ?thesis using assms by (auto simp: compact_add_shred_def Let_def split: if_splits option.splits)
next
  case True
  let ?i = "shred_idx L x"
  have i: "?i < MAX_SHREDS_PER_SLOT" and u: "unat (of_nat ?i :: u32) = ?i"
    using True assms(2) by (auto simp: compact_add_shred_def Let_def shred_idx_def split: if_splits)
  then show ?thesis
    using True assms
    by (auto simp: compact_add_shred_def Let_def compact_wf_def length_grow_to less_max_iff_disj split: if_splits option.splits)
qed

lemma length_clear: "length (fold (\<lambda>i xs. xs[i := None]) is xs) = length xs"
  by (induction "is" arbitrary: xs) auto

lemma try_fast_wf:
  assumes "compact_wf c" "try_deshred_fast L c = Inr (out, c')"
  shows "compact_wf c' \<and> sc_slot c' = sc_slot c \<and> (\<forall>es p. out = Some (es, p) \<longrightarrow> ld_deserialize L p = Some es)"
  using assms
  by (auto simp: try_deshred_fast_def Let_def rbind_eq_Inr_iff compact_wf_def length_clear
      split: list.splits if_splits option.splits simp del: upt_Suc)

lemma dl_entry_wf:
  assumes "dl_wf m" "i < SLOT_WINDOW_SIZE"
  shows "compact_wf (dl_entry s (dl_slots m ! i))" "sc_slot (dl_entry s (dl_slots m ! i)) = s"
  using assms slot_compact_new_wf [of s]
  by (auto simp: dl_entry_def dl_wf_def slot_compact_new_def split: option.split)

lemma dl_add_wf:
  assumes "dl_wf m" "dl_add_shred L x m = Inr (out, m')"
  shows "dl_wf m' \<and> fits (sh_slot L) (ld_deserialize L) x out"
proof -
  let ?i = "unat (sh_slot L x) mod SLOT_WINDOW_SIZE"
  have i: "?i < SLOT_WINDOW_SIZE" "?i < length (dl_slots m)" using assms(1) by (auto simp: SLOT_WINDOW_SIZE_def dl_wf_def)
  let ?c = "dl_entry (sh_slot L x) (dl_slots m ! ?i)"
  note w = dl_entry_wf [OF assms(1) i(1), of "sh_slot L x"]
  obtain b c1 where a: "compact_add_shred L x ?c = Inr (b, c1)"
    using assms(2) i by (cases "compact_add_shred L x ?c") (auto simp: dl_add_shred_def Let_def get_def)
  note w1 = compact_add_wf [OF w(1) a]
  have keep: "dl_wf \<lparr>dl_slots = (dl_slots m)[?i := Some c], dl_current_slot = s\<rparr>" if "compact_wf c" "sc_slot c = sh_slot L x" for c s
    using assms(1) that i by (auto simp: dl_wf_def nth_list_update)
  show ?thesis
  proof (cases b)
    case False
    then show ?thesis using assms(2) a i keep [of c1] w1 w(2) by (auto simp: dl_add_shred_def Let_def get_def fits_def)
  next
    case True
    obtain o1 c2 where t: "try_deshred_fast L c1 = Inr (o1, c2)"
      using assms(2) a True i by (cases "try_deshred_fast L c1") (auto simp: dl_add_shred_def Let_def get_def)
    note w2 = try_fast_wf [OF w1 [THEN conjunct1] t]
    then show ?thesis using assms(2) a True t i keep [of c2] w1 w(2)
      by (auto simp: dl_add_shred_def Let_def get_def fits_def split: option.split)
  qed
qed

interpretation dl: deshred_trait "sh_slot L" "ld_deserialize L" "dl_add_shred L" dl_wf for L
  by unfold_locales (auto dest: dl_add_wf)

lemma dl_new_wf: "dl_wf dl_new"
  by (simp add: dl_wf_def dl_new_def)

lemma dl_cleanup_wf: "dl_wf m \<Longrightarrow> dl_wf (dl_cleanup_old_slots s m)"
  by (auto simp: dl_wf_def dl_cleanup_old_slots_def Let_def split: option.splits if_splits)

text \<open>The threads of the sharded manager do not see each other.\<close>

lemma get_local_other:
  assumes "get_local t f m = Inr (a, m')" "t \<noteq> u"
  shows "get u (ds_managers m') = get u (ds_managers m)"
  using assms by (auto simp: get_local_def get_def rbind_eq_Inr_iff split: if_splits)

section \<open>Bit sets\<close>

definition received :: "u64 list \<Rightarrow> nat \<Rightarrow> bool" where
  "received masks i \<longleftrightarrow> bit (masks ! (i div 64)) (i mod 64)"

lemma and_bit_eq_0: "(w :: 'a::len word) AND push_bit i 1 = 0 \<longleftrightarrow> \<not> bit w i"
  by (simp add: and_exp_eq_0_iff_not_bit)

lemma mask_word: "i < MAX_SHREDS_PER_SLOT \<Longrightarrow> i div 64 < MAX_SHREDS_PER_SLOT div 64"
  by (simp add: MAX_SHREDS_PER_SLOT_def)

lemma received_set:
  assumes "length masks = MAX_SHREDS_PER_SLOT div 64" "i < MAX_SHREDS_PER_SLOT" "j < MAX_SHREDS_PER_SLOT"
  shows "received (masks[i div 64 := masks ! (i div 64) OR push_bit (i mod 64) 1]) j \<longleftrightarrow> received masks j \<or> j = i"
  using assms mask_word [OF assms(2)] mask_word [OF assms(3)]
  by (auto simp: received_def nth_list_update bit_simps) (metis div_mult_mod_eq)

lemma all_received_iff:
  assumes "length masks = MAX_SHREDS_PER_SLOT div 64" "\<forall>i \<in> set is. i < MAX_SHREDS_PER_SLOT"
  shows "all_received masks is = Inr (\<forall>i \<in> set is. received masks i)"
  using assms(2)
proof (induction "is")
  case (Cons i "is")
  then have "get (i div 64) masks = Some (masks ! (i div 64))" using mask_word [of i] assms(1) by (simp add: get_def)
  then show ?case using Cons by (simp add: and_exp_eq_0_iff_not_bit received_def [of masks i])
qed simp

section \<open>Both managers on one slot\<close>

text \<open>
  The states of a slot in the two managers after the data shreds \<open>p\<close>, of which at most one ends a
  segment: either nothing has been decoded yet and both hold exactly \<open>p\<close>, or the one segment has.
\<close>

definition slot_sim :: "('s, 'e, 'z) ledger_scheme \<Rightarrow> 's list \<Rightarrow> 's slot_shreds \<Rightarrow> 's slot_compact \<Rightarrow> bool" where
  "slot_sim L p d c \<longleftrightarrow> slot_wf L d \<and> length (sc_received_mask c) = MAX_SHREDS_PER_SLOT div 64 \<and>
     (\<forall>i < MAX_SHREDS_PER_SLOT. received (sc_received_mask c) i \<longleftrightarrow> i \<in> shred_idx L ` set p) \<and>
     (\<forall>i < MAX_DATA_SHREDS_PER_SLOT. i \<notin> shred_idx L ` set p \<longrightarrow> ss_data_shreds d ! i = None)"

definition slot_open :: "('s, 'e, 'z) ledger_scheme \<Rightarrow> 's list \<Rightarrow> 's slot_shreds \<Rightarrow> 's slot_compact \<Rightarrow> bool" where
  "slot_open L p d c \<longleftrightarrow> sc_last_processed c = 0 \<and>
     sc_segment_ends c = map (sh_index L) (filter (shred_complete L) p) \<and>
     (\<forall>x \<in> set p. ss_data_shreds d ! shred_idx L x = Some x \<and>
        shred_idx L x < length (sc_shreds c) \<and> sc_shreds c ! shred_idx L x = Some x)"

definition slot_closed :: "('s, 'e, 'z) ledger_scheme \<Rightarrow> 's list \<Rightarrow> 's slot_shreds \<Rightarrow> 's slot_compact \<Rightarrow> bool" where
  "slot_closed L p d c \<longleftrightarrow> sc_segment_ends c = [] \<and> (\<exists>x \<in> set p. shred_complete L x) \<and>
     (\<forall>i < MAX_DATA_SHREDS_PER_SLOT. ss_data_status d ! i \<noteq> DataComplete)"

lemma MAX_le: "i < MAX_SHREDS_PER_SLOT \<Longrightarrow> i < MAX_DATA_SHREDS_PER_SLOT"
  by (simp add: MAX_SHREDS_PER_SLOT_def MAX_DATA_SHREDS_PER_SLOT_def)

lemma index_of_idx: "(of_nat (shred_idx L x) :: u32) = sh_index L x"
  by (simp add: shred_idx_def)

lemma sim_add:
  assumes "slot_sim L p d c" "sh_type L x = Data" "shred_idx L x < MAX_SHREDS_PER_SLOT"
    and "shred_idx L x \<notin> shred_idx L ` set p" "sh_slot L x = ss_slot d"
  obtains d1 c1 where "slot_add_shred L x d = Inr (True, d1)" "compact_add_shred L x c = Inr (True, c1)"
    "slot_sim L (p @ [x]) d1 c1" "ss_slot d1 = ss_slot d" "sc_slot c1 = sc_slot c"
    "slot_open L p d c \<Longrightarrow> slot_open L (p @ [x]) d1 c1"
    "slot_closed L p d c \<Longrightarrow> \<not> shred_complete L x \<Longrightarrow> slot_closed L (p @ [x]) d1 c1"
proof -
  let ?i = "shred_idx L x"
  define d1 where "d1 = d\<lparr>ss_data_status := (ss_data_status d)[?i := (if shred_complete L x then DataComplete else NotDataComplete)],
    ss_data_shreds := (ss_data_shreds d)[?i := Some x]\<rparr>"
  define c1 where "c1 = c\<lparr>sc_received_mask := (sc_received_mask c)[?i div 64 := sc_received_mask c ! (?i div 64) OR push_bit (?i mod 64) 1],
    sc_segment_ends := sc_segment_ends c @ (if shred_complete L x then [sh_index L x] else []),
    sc_shreds := (grow_to ?i (sc_shreds c))[?i := Some x]\<rparr>"
  have i: "?i < MAX_DATA_SHREDS_PER_SLOT" using MAX_le [OF assms(3)] .
  have len: "length (ss_data_status d) = MAX_DATA_SHREDS_PER_SLOT" "length (ss_data_shreds d) = MAX_DATA_SHREDS_PER_SLOT"
    "length (sc_received_mask c) = MAX_SHREDS_PER_SLOT div 64"
    using assms(1) by (auto simp: slot_sim_def slot_wf_def)
  have free: "ss_data_shreds d ! ?i = None" "\<not> received (sc_received_mask c) ?i"
    using assms(1,3,4) i by (auto simp: slot_sim_def)
  have add: "slot_add_shred L x d = Inr (True, d1)"
    using assms(2) i len free by (simp add: slot_add_shred_def get_def Let_def d1_def)
  have cadd: "compact_add_shred L x c = Inr (True, c1)"
    using assms(2,3) len(3) free(2) mask_word [OF assms(3)]
    by (simp add: compact_add_shred_def get_def Let_def c1_def received_def and_exp_eq_0_iff_not_bit index_of_idx)
  have grown: "j < length (sc_shreds c) \<Longrightarrow> grow_to ?i (sc_shreds c) ! j = sc_shreds c ! j" for j
    by (simp add: grow_to_def nth_append)
  have "slot_wf L d1" using slot_add_shred_total [of L d x] add assms(1,5) by (auto simp: slot_sim_def)
  then have sim: "slot_sim L (p @ [x]) d1 c1"
    using assms(1) len received_set [OF len(3) assms(3)] i
    by (auto simp: slot_sim_def c1_def d1_def nth_list_update)
  have op: "slot_open L (p @ [x]) d1 c1" if "slot_open L p d c"
  proof -
    have "ss_data_shreds d1 ! shred_idx L y = Some y \<and> shred_idx L y < length (sc_shreds c1) \<and> sc_shreds c1 ! shred_idx L y = Some y"
      if "y \<in> set (p @ [x])" for y
    proof (cases "y = x")
      case True
      then show ?thesis using i len(2) by (simp add: c1_def d1_def length_grow_to)
    next
      case False
      then have y: "y \<in> set p" using that by simp
      then have "shred_idx L y \<noteq> ?i" using assms(4) by (metis imageI)
      then show ?thesis using \<open>slot_open L p d c\<close> y
        by (simp add: slot_open_def c1_def d1_def length_grow_to grown less_max_iff_disj)
    qed
    then show ?thesis using that by (simp add: slot_open_def c1_def)
  qed
  have cl: "slot_closed L (p @ [x]) d1 c1" if "slot_closed L p d c" "\<not> shred_complete L x"
    using that len i by (auto simp: slot_closed_def c1_def d1_def nth_list_update split: if_splits)
  show thesis by (rule that [OF add cadd sim _ _ op cl]) (simp_all add: c1_def d1_def)
qed

lemma find_None: "\<forall>i < length (ss_data_status d). ss_data_status d ! i \<noteq> DataComplete \<Longrightarrow> find_complete_segment d = None"
  by (rule ccontr) (auto simp: find_complete_segment_iff)

lemma sim_try_closed:
  assumes "slot_sim L p d c" "slot_closed L p d c"
  shows "try_deshred L d = Inr (None, d)" "try_deshred_fast L c = Inr (None, c)"
proof -
  have "find_complete_segment d = None"
    using assms by (intro find_None) (simp add: slot_sim_def slot_wf_def slot_closed_def)
  then show "try_deshred L d = Inr (None, d)" by (simp add: try_deshred_def)
  show "try_deshred_fast L c = Inr (None, c)" using assms(2) by (simp add: try_deshred_fast_def slot_closed_def)
qed

lemma open_status:
  assumes "slot_sim L p d c" "slot_open L p d c" "i < MAX_DATA_SHREDS_PER_SLOT"
  shows "x \<in> set p \<Longrightarrow> shred_idx L x = i \<Longrightarrow>
      ss_data_status d ! i = (if shred_complete L x then DataComplete else NotDataComplete)"
    and "i \<notin> shred_idx L ` set p \<Longrightarrow> ss_data_status d ! i = Unknown"
proof -
  have w: "slot_wf L d" using assms(1) by (simp add: slot_sim_def)
  show "ss_data_status d ! i = (if shred_complete L x then DataComplete else NotDataComplete)"
    if "x \<in> set p" "shred_idx L x = i"
    using slot_wfD(2) [OF w assms(3), of x] assms(2) that by (auto simp: slot_open_def)
  show "ss_data_status d ! i = Unknown" if "i \<notin> shred_idx L ` set p"
    using slot_wfD(1) [OF w assms(3)] assms(1,3) that by (simp add: slot_sim_def)
qed

lemma open_no_end:
  assumes "slot_sim L p d c" "slot_open L p d c" "i < MAX_DATA_SHREDS_PER_SLOT"
    and "\<And>x. x \<in> set p \<Longrightarrow> shred_idx L x = i \<Longrightarrow> \<not> shred_complete L x"
  shows "ss_data_status d ! i \<noteq> DataComplete"
proof (cases "i \<in> shred_idx L ` set p")
  case True
  then obtain x where x: "x \<in> set p" "shred_idx L x = i" by auto
  then show ?thesis using open_status(1) [OF assms(1-3) x] assms(4) by simp
next
  case False
  then show ?thesis using open_status(2) [OF assms(1-3)] by simp
qed

text \<open>The one segment that is complete so far, if it is there without a gap.\<close>

lemma sim_find:
  assumes "slot_sim L p d c" "slot_open L p d c" "filter (shred_complete L) p = [y]"
    and "\<forall>x \<in> set p. shred_idx L x < MAX_SHREDS_PER_SLOT"
  shows "find_complete_segment d =
    (if \<forall>i \<le> shred_idx L y. i \<in> shred_idx L ` set p then Some (0, shred_idx L y) else None)"
proof -
  let ?e = "shred_idx L y"
  have y: "y \<in> set p" "shred_complete L y" "\<And>x. x \<in> set p \<Longrightarrow> shred_complete L x \<Longrightarrow> x = y"
    using arg_cong [OF assms(3), of set] by auto
  have e: "?e < MAX_DATA_SHREDS_PER_SLOT" using y(1) assms(4) MAX_le by blast
  have st: "ss_data_status d ! i =
      (if i \<in> shred_idx L ` set p then if i = ?e then DataComplete else NotDataComplete else Unknown)"
    if "i < MAX_DATA_SHREDS_PER_SLOT" for i
  proof (cases "i \<in> shred_idx L ` set p")
    case False
    then show ?thesis using open_status(2) [OF assms(1,2) that] by simp
  next
    case True
    then obtain x where x: "x \<in> set p" "shred_idx L x = i" by auto
    have "Some x = Some y" if "i = ?e" using assms(2) x y(1) that unfolding slot_open_def by metis
    then have "shred_complete L x \<longleftrightarrow> i = ?e" using y(2,3) x by auto
    then show ?thesis using open_status(1) [OF assms(1,2) that x] True by simp
  qed
  have len: "length (ss_data_status d) = MAX_DATA_SHREDS_PER_SLOT" using assms(1) by (simp add: slot_sim_def slot_wf_def)
  have "find_complete_segment d = Some (0, ?e) \<longleftrightarrow> (\<forall>j < ?e. j \<in> shred_idx L ` set p)"
    using st e len y(1) by (simp add: find_complete_segment_iff) blast
  moreover have "(\<forall>j < ?e. j \<in> shred_idx L ` set p) \<longleftrightarrow> (\<forall>i \<le> ?e. i \<in> shred_idx L ` set p)"
    using y(1) by (auto simp: le_less)
  moreover have "k = ?e \<and> a = 0" if "find_complete_segment d = Some (a, k)" for a k
    using that st [of k] len by (simp add: find_complete_segment_iff split: if_splits)
  ultimately show ?thesis by (cases "find_complete_segment d") auto
qed


lemma map_filter_Some: "List.map_filter (map_option f) (map Some ys) = map f ys"
  by (induction ys) (simp_all add: List.map_filter_simps)

lemma sim_segment:
  assumes "slot_sim L p d c" "slot_open L p d c" "y \<in> set p" "shred_idx L y < MAX_SHREDS_PER_SLOT"
    and "\<forall>i \<le> shred_idx L y. i \<in> shred_idx L ` set p"
  shows "subslice 0 (shred_idx L y + 1) (sc_shreds c) = Some (map Some (segment (shred_idx L y) d))"
proof -
  let ?e = "shred_idx L y"
  have len: "?e < length (sc_shreds c)" using assms(2,3) by (simp add: slot_open_def)
  have dl: "?e < length (ss_data_shreds d)"
    using assms(1) MAX_le [OF assms(4)] by (simp add: slot_sim_def slot_wf_def)
  have "take (?e + 1) (sc_shreds c) = map Some (segment ?e d)"
  proof (rule nth_equalityI)
    show "length (take (?e + 1) (sc_shreds c)) = length (map Some (segment ?e d))"
      using len dl by (simp add: segment_def)
    fix i assume "i < length (take (?e + 1) (sc_shreds c))"
    then have i: "i \<le> ?e" by simp
    then obtain x where x: "x \<in> set p" "shred_idx L x = i" using assms(5) by blast
    then have "sc_shreds c ! i = Some x" "ss_data_shreds d ! i = Some x" using assms(2) by (auto simp: slot_open_def)
    then show "take (?e + 1) (sc_shreds c) ! i = map Some (segment ?e d) ! i"
      using i len dl by (simp add: segment_def)
  qed
  then show ?thesis using len by (simp add: subslice_def)
qed

lemma sim_cleared:
  assumes "slot_sim L p d c" "find_complete_segment d = Some (0, e)" "filter (shred_complete L) p = [y]"
    and "slot_open L p d c" "\<forall>x \<in> set p. shred_idx L x < MAX_SHREDS_PER_SLOT"
    and "c' = c\<lparr>sc_segment_ends := [], sc_last_processed := l, sc_shreds := xs\<rparr>"
  shows "slot_sim L p (clear_segment [0..<e + 1] d) c' \<and> slot_closed L p (clear_segment [0..<e + 1] d) c'"
proof -
  have len: "length (ss_data_status d) = MAX_DATA_SHREDS_PER_SLOT" "length (ss_data_shreds d) = MAX_DATA_SHREDS_PER_SLOT"
    "slot_wf L d" using assms(1) by (auto simp: slot_sim_def slot_wf_def)
  have y: "set (filter (shred_complete L) p) = {y}" using assms(3) by simp
  have e: "e = shred_idx L y" using sim_find [OF assms(1,4,3,5)] assms(2) by (auto split: if_splits)
  have dc: "ss_data_status d ! i \<noteq> DataComplete" if "i < MAX_DATA_SHREDS_PER_SLOT" "e < i" for i
    by (rule open_no_end [OF assms(1,4) that(1)]) (use y that(2) e in auto)
  have "\<exists>x \<in> set p. shred_complete L x" using y by auto
  moreover have "ss_data_status (clear_segment [0..<e + 1] d) ! i \<noteq> DataComplete" if "i < MAX_DATA_SHREDS_PER_SLOT" for i
    using dc [OF that] that len(1) by (simp add: clear_segment_nth del: upt_Suc)
  ultimately have "slot_closed L p (clear_segment [0..<e + 1] d) c'"
    by (simp add: slot_closed_def assms(6) del: upt_Suc)
  moreover have "slot_sim L p (clear_segment [0..<e + 1] d) c'"
    using assms(1,6) len clear_segment_wf [OF len(3)] by (simp add: slot_sim_def clear_segment_nth del: upt_Suc)
  ultimately show ?thesis by blast
qed

lemma sim_try_open:
  assumes "slot_sim L p d c" "slot_open L p d c" "\<forall>x \<in> set p. shred_idx L x < MAX_SHREDS_PER_SLOT"
    and "length (filter (shred_complete L) p) \<le> 1"
  shows "\<exists>out d' c'. try_deshred L d = Inr (out, d') \<and> try_deshred_fast L c = Inr (out, c') \<and>
    slot_sim L p d' c' \<and> (slot_open L p d' c' \<or> slot_closed L p d' c') \<and> sc_slot c' = sc_slot c"
proof (cases "filter (shred_complete L) p")
  case Nil
  have "ss_data_status d ! i \<noteq> DataComplete" if "i < MAX_DATA_SHREDS_PER_SLOT" for i
    by (rule open_no_end [OF assms(1,2) that]) (use Nil in \<open>simp add: filter_empty_conv\<close>)
  then have "find_complete_segment d = None"
    using assms(1) by (intro find_None) (simp add: slot_sim_def slot_wf_def)
  then show ?thesis using assms Nil by (simp add: try_deshred_def try_deshred_fast_def slot_open_def)
next
  case (Cons y ys)
  then have fy: "filter (shred_complete L) p = [y]" using assms(4) by simp
  then have "set (filter (shred_complete L) p) = {y}" by simp
  then have y: "y \<in> set p" by auto
  let ?e = "shred_idx L y" and ?all = "\<forall>i \<le> shred_idx L y. i \<in> shred_idx L ` set p"
  have e: "?e < MAX_SHREDS_PER_SLOT" using assms(3) y by blast
  have ends: "sc_segment_ends c = [sh_index L y]" "sc_last_processed c = 0" using assms(2) fy by (simp_all add: slot_open_def)
  have rec: "all_received (sc_received_mask c) [0..<?e + 1] = Inr ?all"
    using assms(1) e by (subst all_received_iff) (auto simp: slot_sim_def less_Suc_eq_le simp del: upt_Suc)
  note f = sim_find [OF assms(1,2) fy assms(3)]
  have wf: "slot_wf L d" using assms(1) by (simp add: slot_sim_def)
  have u: "unat (sh_index L y) = ?e" by (simp add: shred_idx_def)
  show ?thesis
  proof (cases ?all)
    case False
    then have "find_complete_segment d = None" using f by auto
    moreover have "all_received (sc_received_mask c) [0..<?e + 1] = Inr False" using rec False by auto
    ultimately have "try_deshred L d = Inr (None, d)" "try_deshred_fast L c = Inr (None, c)"
      using ends by (simp_all add: try_deshred_def try_deshred_fast_def u del: upt_Suc)
    then show ?thesis using assms by auto
  next
    case True
    then have fe: "find_complete_segment d = Some (0, ?e)" using f by simp
    let ?ps = "map (sh_payload L) (segment ?e d)"
    define c' where "c' = c\<lparr>sc_segment_ends := [], sc_last_processed := of_nat (?e + 1),
      sc_shreds := fold (\<lambda>idx xs. xs[idx := None]) [0..<?e + 1] (sc_shreds c)\<rparr>"
    have d: "try_deshred L d = (case Option.bind (ld_deshred L ?ps) (\<lambda>p. map_option (\<lambda>es. (es, p)) (ld_deserialize L p)) of
        None \<Rightarrow> Inr (None, d) | Some r \<Rightarrow> Inr (Some r, clear_segment [0..<?e + 1] d))"
      unfolding try_deshred_wf [OF wf] fe by (simp split: option.split del: upt_Suc)
    have c: "try_deshred_fast L c = (case Option.bind (ld_deshred L ?ps) (\<lambda>p. map_option (\<lambda>es. (es, p)) (ld_deserialize L p)) of
        None \<Rightarrow> Inr (None, c) | Some r \<Rightarrow> Inr (Some r, c'))"
    proof -
      have "all_received (sc_received_mask c) [0..<?e + 1] = Inr True" using rec True by auto
      then show ?thesis using sim_segment [OF assms(1,2) y e True]
        by (simp add: try_deshred_fast_def ends u Let_def map_filter_Some c'_def split: option.split del: upt_Suc)
    qed
    note cl = sim_cleared [OF assms(1) fe fy assms(2,3) c'_def]
    show ?thesis
      by (cases "Option.bind (ld_deshred L ?ps) (\<lambda>p. map_option (\<lambda>es. (es, p)) (ld_deserialize L p))")
        (use d c cl assms in \<open>auto simp: c'_def simp del: upt_Suc\<close>)
  qed
qed


section \<open>Both managers on several slots\<close>

definition one_segment_each :: "('s, 'e, 'z) ledger_scheme \<Rightarrow> 's list \<Rightarrow> bool" where
  "one_segment_each L xs \<longleftrightarrow>
     (\<forall>x \<in> set xs. sh_type L x = Data \<and> shred_idx L x < MAX_SHREDS_PER_SLOT \<and>
        length (filter (\<lambda>y. sh_slot L y = sh_slot L x \<and> shred_complete L y) xs) \<le> 1) \<and>
     distinct (map (\<lambda>x. (sh_slot L x, shred_idx L x)) xs) \<and>
     inj_on (\<lambda>s. unat s mod SLOT_WINDOW_SIZE) (sh_slot L ` set xs)"

abbreviation of_slot :: "('s, 'e, 'z) ledger_scheme \<Rightarrow> u64 \<Rightarrow> 's list \<Rightarrow> 's list" where
  "of_slot L s \<equiv> filter (\<lambda>x. sh_slot L x = s)"

abbreviation place :: "u64 \<Rightarrow> nat" where "place s \<equiv> unat s mod SLOT_WINDOW_SIZE"

definition mgr_sim :: "('s, 'e, 'z) ledger_scheme \<Rightarrow> u64 set \<Rightarrow> 's list \<Rightarrow> 's deshred_manager \<Rightarrow> 's deshred_local \<Rightarrow> bool" where
  "mgr_sim L S p m l \<longleftrightarrow> length (dl_slots l) = SLOT_WINDOW_SIZE \<and> dm_wf L m \<and>
     (\<forall>s \<in> S. slot_sim L (of_slot L s p) (dm_entry s m) (dl_entry s (dl_slots l ! place s)) \<and>
        (slot_open L (of_slot L s p) (dm_entry s m) (dl_entry s (dl_slots l ! place s)) \<or>
         slot_closed L (of_slot L s p) (dm_entry s m) (dl_entry s (dl_slots l ! place s))))"

lemma mgr_sim_new: "mgr_sim L S [] dm_new dl_new"
proof -
  have "place s < SLOT_WINDOW_SIZE" for s by (simp add: SLOT_WINDOW_SIZE_def)
  moreover have "\<not> received (replicate (MAX_SHREDS_PER_SLOT div 64) 0) i" if "i < MAX_SHREDS_PER_SLOT" for i
    using mask_word [OF that] by (simp add: received_def)
  ultimately show ?thesis
    using slot_shreds_new_wf(1) [of L] dm_new_wf
    by (simp add: mgr_sim_def dl_new_def dm_new_def dm_entry_def dl_entry_def slot_sim_def slot_open_def
        slot_compact_new_def slot_shreds_new_def)
qed

lemma place_less: "place s < SLOT_WINDOW_SIZE"
  by (simp add: SLOT_WINDOW_SIZE_def)

text \<open>One shred that is new to its slot.\<close>

lemma slot_step:
  assumes "slot_sim L p d c" "slot_open L p d c \<or> slot_closed L p d c" "sh_slot L x = ss_slot d"
    and "\<forall>y \<in> set (p @ [x]). sh_type L y = Data \<and> shred_idx L y < MAX_SHREDS_PER_SLOT"
    and "shred_idx L x \<notin> shred_idx L ` set p" "length (filter (shred_complete L) (p @ [x])) \<le> 1"
  obtains out d1 c1 d2 c2 where "slot_add_shred L x d = Inr (True, d1)" "compact_add_shred L x c = Inr (True, c1)"
    "try_deshred L d1 = Inr (out, d2)" "try_deshred_fast L c1 = Inr (out, c2)" "sc_slot c2 = sc_slot c"
    "slot_sim L (p @ [x]) d2 c2" "slot_open L (p @ [x]) d2 c2 \<or> slot_closed L (p @ [x]) d2 c2"
proof -
  obtain d1 c1 where a: "slot_add_shred L x d = Inr (True, d1)" "compact_add_shred L x c = Inr (True, c1)"
    "slot_sim L (p @ [x]) d1 c1" "sc_slot c1 = sc_slot c"
    and op: "slot_open L p d c \<Longrightarrow> slot_open L (p @ [x]) d1 c1"
    and cl: "slot_closed L p d c \<Longrightarrow> \<not> shred_complete L x \<Longrightarrow> slot_closed L (p @ [x]) d1 c1"
    by (rule sim_add [OF assms(1) _ _ assms(5,3)]) (use assms(4) in auto)
  show thesis
  proof (cases "slot_open L p d c")
    case True
    then obtain out d2 c2 where t: "try_deshred L d1 = Inr (out, d2)" "try_deshred_fast L c1 = Inr (out, c2)"
      "slot_sim L (p @ [x]) d2 c2" "slot_open L (p @ [x]) d2 c2 \<or> slot_closed L (p @ [x]) d2 c2" "sc_slot c2 = sc_slot c1"
      using sim_try_open [OF a(3) op] assms(4,6) by blast
    show thesis by (rule that [OF a(1,2) t(1,2) _ t(3,4)]) (simp add: t(5) a(4))
  next
    case False
    then have c: "slot_closed L p d c" using assms(2) by blast
    then have "filter (shred_complete L) p \<noteq> []" by (auto simp: slot_closed_def filter_empty_conv)
    then have "\<not> shred_complete L x" using assms(6) by (cases "filter (shred_complete L) p") auto
    note cl = cl [OF c this]
    show thesis by (rule that [OF a(1,2) sim_try_closed [OF a(3) cl] a(4) a(3) disjI2 [OF cl]])
  qed
qed


lemma mgr_step:
  assumes sim: "mgr_sim L S p m l" and one: "one_segment_each L (p @ [x])"
    and S: "sh_slot L x \<in> S" "inj_on place S"
  obtains out m' l' where "dm_add_shred L x m = Inr (out, m')" "dl_add_shred L x l = Inr (out, l')" "mgr_sim L S (p @ [x]) m' l'"
proof -
  let ?s = "sh_slot L x"
  let ?d = "dm_entry ?s m" and ?c = "dl_entry ?s (dl_slots l ! place ?s)" and ?p = "of_slot L ?s p"
  have len: "length (dl_slots l) = SLOT_WINDOW_SIZE" and wf: "dm_wf L m" using sim by (auto simp: mgr_sim_def)
  have new: "shred_idx L x \<notin> shred_idx L ` set ?p"
  proof
    assume "shred_idx L x \<in> shred_idx L ` set ?p"
    then obtain y where "y \<in> set p" "(sh_slot L y, shred_idx L y) = (?s, shred_idx L x)" by auto
    then have "(?s, shred_idx L x) \<in> (\<lambda>x. (sh_slot L x, shred_idx L x)) ` set p" by (intro rev_image_eqI [of y]) auto
    then show False using one by (simp add: one_segment_each_def)
  qed
  have ok: "\<forall>y \<in> set (?p @ [x]). sh_type L y = Data \<and> shred_idx L y < MAX_SHREDS_PER_SLOT"
    using one by (simp add: one_segment_each_def)
  have ends: "length (filter (shred_complete L) (?p @ [x])) \<le> 1"
  proof -
    have "filter (shred_complete L) (?p @ [x]) = filter (\<lambda>y. sh_slot L y = ?s \<and> shred_complete L y) (p @ [x])"
      by (simp add: conj_commute)
    then show ?thesis using one by (simp add: one_segment_each_def)
  qed
  have s: "slot_sim L ?p ?d ?c" "slot_open L ?p ?d ?c \<or> slot_closed L ?p ?d ?c"
    using sim S(1) by (auto simp: mgr_sim_def)
  have sd: "?s = ss_slot ?d" using dm_slot_wf(2) [OF wf] by simp
  obtain out d1 c1 d2 c2 where st: "slot_add_shred L x ?d = Inr (True, d1)" "compact_add_shred L x ?c = Inr (True, c1)"
    "try_deshred L d1 = Inr (out, d2)" "try_deshred_fast L c1 = Inr (out, c2)" "sc_slot c2 = sc_slot ?c"
    "slot_sim L (?p @ [x]) d2 c2" "slot_open L (?p @ [x]) d2 c2 \<or> slot_closed L (?p @ [x]) d2 c2"
    by (rule slot_step [OF s sd ok new ends])
  let ?out = "map_option (\<lambda>(es, p). (?s, es, p)) out"
  define m' where "m' = m\<lparr>dm_slots := (dm_slots m)(?s \<mapsto> d2)\<rparr>"
  define l' where "l' = \<lparr>dl_slots = (dl_slots l)[place ?s := Some c2], dl_current_slot = ?s\<rparr>"
  have dm: "dm_add_shred L x m = Inr (?out, m')" using st by (simp add: dm_add_shred_def m'_def Let_def)
  have dl: "dl_add_shred L x l = Inr (?out, l')"
    using st len place_less [of ?s] by (simp add: dl_add_shred_def l'_def Let_def get_def)
  have "sc_slot ?c = ?s" by (simp add: dl_entry_def slot_compact_new_def split: option.split)
  then have at: "dm_entry ?s m' = d2" "dl_entry ?s (dl_slots l' ! place ?s) = c2"
    using st(5) len place_less by (simp_all add: dm_entry_def m'_def dl_entry_def l'_def)
  have "dm_entry t m' = dm_entry t m \<and> dl_slots l' ! place t = dl_slots l ! place t" if "t \<in> S" "t \<noteq> ?s" for t
  proof -
    have "place t \<noteq> place ?s" using inj_onD [OF S(2) _ that(1) S(1)] that(2) by auto
    then show ?thesis using that by (simp add: dm_entry_def m'_def l'_def)
  qed
  then have "mgr_sim L S (p @ [x]) m' l'"
    using sim at st(6,7) dm.add_inv [OF wf dm] len by (auto simp: mgr_sim_def l'_def)
  with dm dl show thesis by (rule that)
qed

lemma one_segment_each_prefix: "one_segment_each L (p @ xs) \<Longrightarrow> one_segment_each L p"
  by (auto simp: one_segment_each_def image_Un inj_on_Un dest: add_leD1)

lemma run_sim:
  assumes "mgr_sim L S p m l" "one_segment_each L (p @ xs)" "sh_slot L ` set xs \<subseteq> S" "inj_on place S"
  shows "\<exists>outs m' l'. trait_run (dm_add_shred L) xs m = Inr (outs, m') \<and> trait_run (dl_add_shred L) xs l = Inr (outs, l')"
  using assms(1-3)
proof (induction xs arbitrary: p m l)
  case (Cons x xs)
  have "one_segment_each L (p @ [x])" using one_segment_each_prefix [of L "p @ [x]" xs] Cons.prems(2) by simp
  moreover have "sh_slot L x \<in> S" using Cons.prems(3) by simp
  ultimately obtain out m1 l1 where s: "dm_add_shred L x m = Inr (out, m1)" "dl_add_shred L x l = Inr (out, l1)"
    "mgr_sim L S (p @ [x]) m1 l1"
    by (rule mgr_step [OF Cons.prems(1) _ _ assms(4)])
  obtain outs m' l' where "trait_run (dm_add_shred L) xs m1 = Inr (outs, m')" "trait_run (dl_add_shred L) xs l1 = Inr (outs, l')"
    using Cons.IH [OF s(3)] Cons.prems(2,3) by auto
  then show ?case using s by simp
qed simp

text \<open>C34. The two managers are equivalent on slots of one segment: if the shreds are data shreds with
  indices below 512, none twice, at most one of each slot ends a segment, and the slots have places
  of their own in the window, then in whatever order they arrive both managers run without a
  panic and return the same after every single shred.\<close>

theorem managers_agree:
  assumes "one_segment_each L xs"
  shows "\<exists>outs m l. trait_run (dm_add_shred L) xs dm_new = Inr (outs, m) \<and> trait_run (dl_add_shred L) xs dl_new = Inr (outs, l)"
  using run_sim [OF mgr_sim_new, of L xs "sh_slot L ` set xs"] assms by (simp add: one_segment_each_def)

theorem managers_agree_witness:
  "\<exists>outs m l. trait_run (dm_add_shred example_ledger) [(2, True, [3]), (0, False, [1]), (5, False, [9]), (1, False, [2])] dm_new = Inr (outs, m) \<and>
    trait_run (dl_add_shred example_ledger) [(2, True, [3]), (0, False, [1]), (5, False, [9]), (1, False, [2])] dl_new = Inr (outs, l)"
proof -
  have "one_segment_each example_ledger [(2, True, [3]), (0, False, [1]), (5, False, [9]), (1, False, [2])]"
    by (simp add: one_segment_each_def example_ledger_def shred_idx_def shred_complete_def MAX_SHREDS_PER_SLOT_def)
  then show ?thesis by (rule managers_agree)
qed

section \<open>Where the managers part\<close>

text \<open>An end that lies before what was already processed makes the next call panic.\<close>

lemma try_fast_panics:
  assumes "sc_segment_ends c = e # ends" "unat e + 1 < unat (sc_last_processed c)"
  shows "try_deshred_fast L c = Inl (Panic ''slice index starts after its end'')"
  using assms by (simp add: try_deshred_fast_def Let_def subslice_def)

lemma masks_new: "replicate (MAX_SHREDS_PER_SLOT div 64) (0 :: u64) = 0 # replicate 7 0"
proof -
  have "MAX_SHREDS_PER_SLOT div 64 = Suc 7" by (simp add: MAX_SHREDS_PER_SLOT_def)
  then show ?thesis by (simp only: replicate_Suc)
qed

text \<open>A slot from its mask word for the first 64 shreds on.\<close>

definition early_slot :: "u64 \<Rightarrow> u64 \<Rightarrow> 's option list \<Rightarrow> u32 list \<Rightarrow> u32 \<Rightarrow> 's slot_compact" where
  "early_slot s w xs ends l =
     \<lparr>sc_slot = s, sc_received_mask = w # replicate 7 0, sc_shreds = xs, sc_segment_ends = ends, sc_last_processed = l\<rparr>"

lemma early_add:
  assumes "shred_idx L x < 64" "\<not> bit w (shred_idx L x)" "sh_type L x = Data"
  shows "compact_add_shred L x (early_slot s w xs ends l) =
    Inr (True, early_slot s (w OR push_bit (shred_idx L x) 1) ((grow_to (shred_idx L x) xs)[shred_idx L x := Some x])
      (ends @ (if shred_complete L x then [sh_index L x] else [])) l)"
  using assms
  by (simp add: compact_add_shred_def early_slot_def Let_def get_def MAX_SHREDS_PER_SLOT_def and_exp_eq_0_iff_not_bit index_of_idx)

lemma early_received:
  "all_received (w # replicate 7 0) is = Inr (\<forall>i \<in> set is. bit w i)" if "\<forall>i \<in> set is. i < 64"
  using that by (induction "is") (auto simp: get_def and_exp_eq_0_iff_not_bit)

lemma early_try_missing:
  assumes "unat e < 64" "i \<le> unat e" "\<not> bit w i"
  shows "try_deshred_fast L (early_slot s w xs (e # ends) 0) = Inr (None, early_slot s w xs (e # ends) 0)"
proof -
  have "all_received (w # replicate 7 0) [0..<unat e + 1] = Inr False"
    using assms by (subst early_received) (auto simp: less_Suc_eq_le simp del: upt_Suc)
  then show ?thesis by (simp add: try_deshred_fast_def early_slot_def Let_def del: upt_Suc)
qed

lemma early_try_found:
  assumes "unat e < 64" "\<forall>i \<le> unat e. bit w i" "unat e < length xs"
    and "ld_deshred L (List.map_filter (map_option (sh_payload L)) (take (unat e + 1) xs)) = Some p" "ld_deserialize L p = Some es"
  shows "try_deshred_fast L (early_slot s w xs (e # ends) 0) = Inr (Some (es, p),
    early_slot s w (fold (\<lambda>i xs. xs[i := None]) [0..<unat e + 1] xs) ends (of_nat (unat e + 1)))"
proof -
  have "all_received (w # replicate 7 0) [0..<unat e + 1] = Inr True"
    using assms by (subst early_received) (auto simp: less_Suc_eq_le simp del: upt_Suc)
  then show ?thesis using assms by (simp add: try_deshred_fast_def early_slot_def Let_def subslice_def del: upt_Suc)
qed

lemma sc_slot_early [simp]: "sc_slot (early_slot s w xs ends l) = s"
  by (simp add: early_slot_def)

lemma dl_add_new_slot:
  assumes "dl_slots m ! place (sh_slot L x) = None" "length (dl_slots m) = SLOT_WINDOW_SIZE"
    and "compact_add_shred L x (early_slot (sh_slot L x) 0 [] [] 0) = Inr (True, c)" "try_deshred_fast L c = Inr (out, c')"
  shows "dl_add_shred L x m = Inr (map_option (\<lambda>(es, p). (sh_slot L x, es, p)) out,
    \<lparr>dl_slots = (dl_slots m)[place (sh_slot L x) := Some c'], dl_current_slot = sh_slot L x\<rparr>)"
  using assms place_less
  by (simp add: dl_add_shred_def get_def Let_def dl_entry_def slot_compact_new_def masks_new early_slot_def)

lemma dl_add_known_slot:
  assumes "dl_slots m ! place (sh_slot L x) = Some c" "sc_slot c = sh_slot L x" "length (dl_slots m) = SLOT_WINDOW_SIZE"
    and "compact_add_shred L x c = Inr (True, c1)"
  shows "dl_add_shred L x m = rbind (try_deshred_fast L c1) (\<lambda>(out, c').
    Inr (map_option (\<lambda>(es, p). (sh_slot L x, es, p)) out,
      \<lparr>dl_slots = (dl_slots m)[place (sh_slot L x) := Some c'], dl_current_slot = sh_slot L x\<rparr>))"
  using assms place_less by (simp add: dl_add_shred_def get_def Let_def dl_entry_def)

text \<open>C39. The sharded manager takes the ends of segments in the order they arrive. On a new manager,
  let two segments of one data shred each, with indices 0 and 1 of the same slot, arrive in the
  wrong order: first shred 1, then shred 0. The two are decoded as one segment, and when shred 2 of
  the slot follows, which ends no segment, the call panics: the range it slices starts after its
  end. The decoder is assumed to accept the two payloads together.\<close>

theorem sharded_out_of_order_panics:
  assumes "sh_slot L x0 = s" "sh_slot L x1 = s" "sh_slot L x2 = s"
    and "sh_type L x0 = Data" "sh_type L x1 = Data" "sh_type L x2 = Data"
    and "sh_index L x0 = 0" "sh_index L x1 = 1" "sh_index L x2 = 2"
    and "shred_complete L x0" "shred_complete L x1" "\<not> shred_complete L x2"
    and "ld_deshred L [sh_payload L x0, sh_payload L x1] = Some p" "ld_deserialize L p = Some es"
  shows "\<exists>m. trait_run (dl_add_shred L) [x1, x0] dl_new = Inr ([None, Some (s, es, p)], m) \<and>
    dl_add_shred L x2 m = Inl (Panic ''slice index starts after its end'')"
proof -
  have i: "shred_idx L x0 = 0" "shred_idx L x1 = 1" "shred_idx L x2 = 2" using assms(7-9) by (simp_all add: shred_idx_def)
  have len: "length (dl_slots dl_new) = SLOT_WINDOW_SIZE" "dl_slots dl_new ! place s = None"
    using place_less by (simp_all add: dl_new_def)
  let ?c1 = "early_slot s 2 [None, Some x1] [1] 0" and ?c0 = "early_slot s 3 [Some x0, Some x1] [1, 0] 0"
  let ?d = "early_slot s 3 [None, None] [0] 2" and ?c2 = "early_slot s 7 [None, None, Some x2] [0] 2"
  have a: "compact_add_shred L x1 (early_slot s 0 [] [] 0) = Inr (True, ?c1)"
    "compact_add_shred L x0 ?c1 = Inr (True, ?c0)" "compact_add_shred L x2 ?d = Inr (True, ?c2)"
    using assms i by (simp_all add: early_add grow_to_def eval_nat_numeral)
  have t1: "try_deshred_fast L ?c1 = Inr (None, ?c1)"
    by (rule early_try_missing [of _ 0]) simp_all
  have t0: "try_deshred_fast L ?c0 = Inr (Some (es, p), ?d)"
  proof -
    have "bit (3 :: u64) i" if "i \<le> unat (1 :: u32)" for i using that by (auto simp: le_Suc_eq bit_Suc)
    then have "try_deshred_fast L ?c0 = Inr (Some (es, p),
        early_slot s 3 (fold (\<lambda>i xs. xs[i := None]) [0..<unat (1 :: u32) + 1] [Some x0, Some x1]) [0] (of_nat (unat (1 :: u32) + 1)))"
      using assms(13,14) by (intro early_try_found) (simp_all add: List.map_filter_simps)
    then show ?thesis by (simp add: upt_rec)
  qed
  have t2: "try_deshred_fast L ?c2 = Inl (Panic ''slice index starts after its end'')"
    by (rule try_fast_panics [where e = 0 and ends = "[]"]) (simp_all add: early_slot_def)
  have "dl_add_shred L x1 dl_new = Inr (None, \<lparr>dl_slots = (dl_slots dl_new)[place s := Some ?c1], dl_current_slot = s\<rparr>)"
    using dl_add_new_slot [of dl_new L x1 ?c1 None ?c1] len a(1) t1 assms(2) by simp
  moreover have "dl_add_shred L x0 \<lparr>dl_slots = (dl_slots dl_new)[place s := Some ?c1], dl_current_slot = s\<rparr> =
      Inr (Some (s, es, p), \<lparr>dl_slots = (dl_slots dl_new)[place s := Some ?d], dl_current_slot = s\<rparr>)"
    by (subst dl_add_known_slot [of _ _ _ ?c1 ?c0]) (simp_all add: len a t0 assms(1) place_less)
  moreover have "dl_add_shred L x2 \<lparr>dl_slots = (dl_slots dl_new)[place s := Some ?d], dl_current_slot = s\<rparr> =
      Inl (Panic ''slice index starts after its end'')"
    by (subst dl_add_known_slot [of _ _ _ ?d ?c2]) (simp_all add: len a t2 assms(3) place_less)
  ultimately show ?thesis by simp
qed

theorem sharded_out_of_order_panics_witness:
  "\<exists>m. trait_run (dl_add_shred example_ledger) [(1, True, [5]), (0, True, [4])] dl_new = Inr ([None, Some (7, [4, 5], [4, 5])], m) \<and>
    dl_add_shred example_ledger (2, False, [6]) m = Inl (Panic ''slice index starts after its end'')"
  by (rule sharded_out_of_order_panics [where ?x0.0 = "(0, True, [4])"]) (simp_all add: example_ledger_def shred_complete_def)

text \<open>Data and code shreds share one bit set: a code shred keeps out the data shred of its index.\<close>

lemma code_shred_shadows_data:
  assumes "compact_wf c" "compact_add_shred L x c = Inr (True, c1)" "shred_idx L y = shred_idx L x"
  shows "compact_add_shred L y c1 = Inr (False, c1)"
proof -
  have "shred_idx L x < MAX_SHREDS_PER_SLOT" "length (sc_received_mask c) = MAX_SHREDS_PER_SLOT div 64"
    using assms(1,2) by (auto simp: compact_wf_def compact_add_shred_def Let_def split: if_splits)
  then show ?thesis using assms(2,3) mask_word [of "shred_idx L x"]
    by (auto simp: compact_add_shred_def Let_def get_def and_exp_eq_0_iff_not_bit bit_simps split: if_splits)
qed

end
