(* ===== verification/Shred_Processor.thy ===== *)
theory Shred_Processor
  imports Deshred_Sharded
begin

text \<open>
  \<^verbatim>\<open>src/examples/shred_processor.rs\<close>: packets are classified, parsed into shreds, counted and
  handed to a manager; what comes out complete is reported. \<open>process_shred_ref\<close> takes the
  manager's \<^verbatim>\<open>add_shred\<close> as an argument, as the source is generic in \<^verbatim>\<open>DeshredTrait\<close>, and its
  correctness is proved from the laws of the locale \<open>deshred_trait\<close> alone; \<open>process_shred\<close> and
  \<open>decoder_worker\<close> use the manager behind a mutex. Printed lines are values of \<open>log_line\<close> with the
  fields the source formats. Parsing a shred and reading the transactions of an entry belong to
  \<^verbatim>\<open>solana-ledger\<close> and \<^verbatim>\<open>bincode\<close> and are further fields of the ledger record.
\<close>

record ('s, 'e, 't, 'g) ledger_tx = "('s, 'e) ledger" +
  ld_parse :: "u8 list \<Rightarrow> 's option"
  en_transactions :: "'e \<Rightarrow> 't list"
  txn_signatures :: "'t \<Rightarrow> 'g list"
  txn_serialized_size :: "'t \<Rightarrow> u64 option"

type_synonym octets = "u8 \<times> u8 \<times> u8 \<times> u8"

section \<open>Reading the header\<close>

definition extract_slot_fast :: "u8 list \<Rightarrow> u64 option" where
  "extract_slot_fast payload =
     (if length payload < 73 then None
      else map_option from_le_bytes (subslice 65 73 payload))"

definition parse_shred_type :: "u8 list \<Rightarrow> shred_type option" where
  "parse_shred_type data =
     (if length data < 83 then None
      else let variant = data ! 0x40; upper_nibble = variant AND 0xF0 in
        if upper_nibble = 0x80 \<or> upper_nibble = 0x90 \<or> upper_nibble = 0xB0 then Some Data
        else if upper_nibble = 0x40 \<or> upper_nibble = 0x60 \<or> upper_nibble = 0x70 then Some Code
        else None)"

definition parse_shred :: "('s, 'e, 't, 'g, 'z) ledger_tx_scheme \<Rightarrow> u8 list \<Rightarrow> 's option" where
  "parse_shred L data = (if length data < 83 then None else ld_parse L data)"

section \<open>Packets, statistics and reports\<close>

text \<open>A \<^verbatim>\<open>SystemTime\<close> is the number of nanoseconds since the epoch, negative before it.\<close>

record packet_data_ref =
  pr_payload :: "u8 list"
  pr_packet_len :: usize
  pr_src_ip :: octets
  pr_src_port :: u16
  pr_dst_ip :: octets
  pr_dst_port :: u16
  pr_timestamp :: int
  pr_shred_type :: "shred_type option"

record packet_data =
  pd_payload :: "u8 list"
  pd_src_ip :: octets
  pd_src_port :: u16
  pd_dst_ip :: octets
  pd_dst_port :: u16
  pd_timestamp :: int

record shred_stats =
  st_received :: usize
  st_decoded :: usize
  st_errors :: usize
  st_data_shreds :: usize
  st_code_shreds :: usize
  st_code_drops :: usize

definition shred_stats_new :: shred_stats where
  "shred_stats_new = \<lparr>st_received = 0, st_decoded = 0, st_errors = 0, st_data_shreds = 0, st_code_shreds = 0, st_code_drops = 0\<rparr>"

definition digit :: "nat \<Rightarrow> char" where
  "digit n = char_of (48 + n mod 10)"

text \<open>The decimal digits of a number, at least \<open>w\<close> of them, as \<^verbatim>\<open>{:0w}\<close> prints it.\<close>

fun pad_decimal :: "nat \<Rightarrow> nat \<Rightarrow> string" where
  "pad_decimal w n = (if n < 10 then replicate (w - 1) CHR ''0'' @ [digit n] else pad_decimal (w - 1) (n div 10) @ [digit n])"

declare pad_decimal.simps [simp del]

definition format_timestamp :: "int \<Rightarrow> string" where
  "format_timestamp timestamp =
     (if timestamp < 0 then ''INVALID_TIME''
      else let secs = nat timestamp div 1000000000; nanos = nat timestamp mod 1000000000;
               hours = (secs div 3600) mod 24; minutes = (secs div 60) mod 60; seconds = secs mod 60 in
        pad_decimal 2 hours @ '':'' @ pad_decimal 2 minutes @ '':'' @ pad_decimal 2 seconds @ ''.'' @ pad_decimal 9 nanos)"

datatype 'g log_line =
    Parsed u64 u32
  | DeshredLine string octets u16 octets u16 u64 nat nat
  | TxLine string octets u16 octets u16 u64 nat usize u64 'g
  | DeshredLegacy string u64 nat nat
  | TxLegacy string u64 nat 'g
  | ShredLine string u8 u16 u64 u32 shred_type nat
  | ErrorLine usize

text \<open>The counters shared between calls: the statistics, and the function-local statics.\<close>

record 'g processor =
  ps_stats :: shred_stats
  ps_ref_errors :: usize
  ps_errors :: usize
  ps_shreds :: usize
  ps_log :: "'g log_line list"

definition processor_new :: "'g processor" where
  "processor_new = \<lparr>ps_stats = shred_stats_new, ps_ref_errors = 0, ps_errors = 0, ps_shreds = 0, ps_log = []\<rparr>"

abbreviation count :: "(shred_stats \<Rightarrow> shred_stats) \<Rightarrow> 'g processor \<Rightarrow> 'g processor" where
  "count f ps \<equiv> ps\<lparr>ps_stats := f (ps_stats ps)\<rparr>"

abbreviation report :: "'g log_line list \<Rightarrow> 'g processor \<Rightarrow> 'g processor" where
  "report ls ps \<equiv> ps\<lparr>ps_log := ps_log ps @ ls\<rparr>"

definition count_received :: "shred_stats \<Rightarrow> shred_stats" where
  "count_received st = st\<lparr>st_received := st_received st + 1\<rparr>"

definition count_error :: "shred_stats \<Rightarrow> shred_stats" where
  "count_error st = st\<lparr>st_errors := st_errors st + 1\<rparr>"

definition count_decoded :: "shred_type \<Rightarrow> shred_stats \<Rightarrow> shred_stats" where
  "count_decoded ty st =
     (let st = st\<lparr>st_decoded := st_decoded st + 1\<rparr> in
      case ty of
        Data \<Rightarrow> st\<lparr>st_data_shreds := st_data_shreds st + 1\<rparr>
      | Code \<Rightarrow> st\<lparr>st_code_shreds := st_code_shreds st + 1\<rparr>)"

section \<open>Reporting what was decoded\<close>

definition VOTE_TXN_SIZE_THRESHOLD :: u64 where "VOTE_TXN_SIZE_THRESHOLD = 400"

definition txn_count :: "('s, 'e, 't, 'g, 'z) ledger_tx_scheme \<Rightarrow> 'e list \<Rightarrow> nat" where
  "txn_count L entries = sum_list (map (\<lambda>e. length (en_transactions L e)) entries)"

definition txn_size :: "('s, 'e, 't, 'g, 'z) ledger_tx_scheme \<Rightarrow> 't \<Rightarrow> u64" where
  "txn_size L txn = (case txn_serialized_size L txn of None \<Rightarrow> 0 | Some n \<Rightarrow> n)"

definition ref_tx_lines ::
  "('s, 'e, 't, 'g, 'z) ledger_tx_scheme \<Rightarrow> packet_data_ref \<Rightarrow> u64 \<Rightarrow> nat \<Rightarrow> 't \<Rightarrow> 'g log_line list" where
  "ref_tx_lines L packet slot entry_idx txn =
     (if txn_size L txn < VOTE_TXN_SIZE_THRESHOLD then []
      else case txn_signatures L txn of
          [] \<Rightarrow> []
        | sig # _ \<Rightarrow> [TxLine (format_timestamp (pr_timestamp packet)) (pr_src_ip packet) (pr_src_port packet)
            (pr_dst_ip packet) (pr_dst_port packet) slot entry_idx (pr_packet_len packet) (txn_size L txn) sig])"

definition ref_report ::
  "('s, 'e, 't, 'g, 'z) ledger_tx_scheme \<Rightarrow> packet_data_ref \<Rightarrow> 'e deshredded \<Rightarrow> 'g log_line list" where
  "ref_report L packet out =
     (case out of (slot, entries, _) \<Rightarrow>
        DeshredLine (format_timestamp (pr_timestamp packet)) (pr_src_ip packet) (pr_src_port packet)
          (pr_dst_ip packet) (pr_dst_port packet) slot (length entries) (txn_count L entries) #
        concat (map (\<lambda>(entry_idx, entry). concat (map (ref_tx_lines L packet slot entry_idx) (en_transactions L entry)))
          (enumerate 0 entries)))"

definition legacy_report ::
  "('s, 'e, 't, 'g, 'z) ledger_tx_scheme \<Rightarrow> string \<Rightarrow> 'e deshredded \<Rightarrow> 'g log_line list" where
  "legacy_report L ts out =
     (case out of (slot, entries, _) \<Rightarrow>
        DeshredLegacy ts slot (length entries) (txn_count L entries) #
        concat (map (\<lambda>(entry_idx, entry).
            concat (map (\<lambda>txn. case txn_signatures L txn of [] \<Rightarrow> [] | sig # _ \<Rightarrow> [TxLegacy ts slot entry_idx sig])
              (en_transactions L entry)))
          (enumerate 0 entries)))"

section \<open>Processing a packet\<close>

definition process_shred_ref ::
  "('s, 'e, 't, 'g, 'z) ledger_tx_scheme \<Rightarrow> ('s \<Rightarrow> 'm \<Rightarrow> ('e deshredded option \<times> 'm) io_result) \<Rightarrow>
   packet_data_ref \<Rightarrow> 'g processor \<times> 'm \<Rightarrow> ('g processor \<times> 'm) io_result" where
  "process_shred_ref L add packet = (\<lambda>(ps, mgr).
     let ps = count count_received ps in
     case pr_shred_type packet of
       None \<Rightarrow> Inr (count count_error ps, mgr)
     | Some ty \<Rightarrow>
         (case ld_parse L (pr_payload packet) of
            Some shred \<Rightarrow>
              let ps = count (count_decoded ty) (report [Parsed (sh_slot L shred) (sh_index L shred)] ps) in
              rbind (add shred mgr) (\<lambda>(out, mgr).
                Inr ((case out of None \<Rightarrow> ps | Some d \<Rightarrow> report (ref_report L packet d) ps), mgr))
          | None \<Rightarrow>
              let err_count = ps_ref_errors ps;
                  ps = report (if err_count mod 100 = 0 then [ErrorLine err_count] else [])
                    (ps\<lparr>ps_ref_errors := err_count + 1\<rparr>) in
              Inr (count count_error ps, mgr)))"

record 'm mutex =
  mx_value :: 'm
  mx_poisoned :: bool

definition mutex_new :: "'m \<Rightarrow> 'm mutex" where
  "mutex_new m = \<lparr>mx_value = m, mx_poisoned = False\<rparr>"

definition mutex_lock :: "'m mutex \<Rightarrow> 'm io_result" where
  "mutex_lock mx = (if mx_poisoned mx then Inl (Panic ''PoisonError'') else Inr (mx_value mx))"

text \<open>\<^verbatim>\<open>DeshredTrait\<close> for the manager behind its mutex.\<close>

definition mutex_add_shred ::
  "('s, 'e, 'z) ledger_scheme \<Rightarrow> 's \<Rightarrow> 's deshred_manager mutex \<Rightarrow>
   ('e deshredded option \<times> 's deshred_manager mutex) io_result" where
  "mutex_add_shred L shred mx =
     rbind (mutex_lock mx) (\<lambda>m. rbind (dm_add_shred L shred m) (\<lambda>(out, m). Inr (out, mx\<lparr>mx_value := m\<rparr>)))"

definition process_shred ::
  "('s, 'e, 't, 'g, 'z) ledger_tx_scheme \<Rightarrow> packet_data \<Rightarrow> 'g processor \<times> 's deshred_manager mutex \<Rightarrow>
   ('g processor \<times> 's deshred_manager mutex) io_result" where
  "process_shred L packet = (\<lambda>(ps, mx).
     let ps = count count_received ps in
     case parse_shred L (pd_payload packet) of
       Some shred \<Rightarrow>
         let ps = count (count_decoded (sh_type L shred)) (report [Parsed (sh_slot L shred) (sh_index L shred)] ps);
             ts = format_timestamp (pd_timestamp packet) in
         rbind (mutex_lock mx) (\<lambda>mgr.
         rbind (dm_add_shred L shred mgr) (\<lambda>(out, mgr).
           let ps = (case out of
                 Some d \<Rightarrow> report (legacy_report L ts d) ps
               | None \<Rightarrow>
                   let shred_count = ps_shreds ps in
                   report (if shred_count mod 100 = 0
                       then [ShredLine ts (fst (pd_src_ip packet)) (pd_src_port packet) (sh_slot L shred) (sh_index L shred)
                               (sh_type L shred) (length (pd_payload packet))]
                       else [])
                     (ps\<lparr>ps_shreds := shred_count + 1\<rparr>));
               mgr = (if st_decoded (ps_stats ps) mod 1000 = 0 then dm_cleanup_old_slots (sh_slot L shred) 50 mgr else mgr)
           in Inr (ps, mx\<lparr>mx_value := mgr\<rparr>)))
     | None \<Rightarrow>
         let err_count = ps_errors ps;
             ps = report (if err_count mod 100 = 0 then [ErrorLine err_count] else [])
               (ps\<lparr>ps_errors := err_count + 1\<rparr>) in
         Inr (count count_error ps, mx))"

text \<open>A sequence of packets, and the worker thread until its channel is closed.\<close>

fun process_all :: "('p \<Rightarrow> 'c \<Rightarrow> 'c io_result) \<Rightarrow> 'p list \<Rightarrow> 'c \<Rightarrow> 'c io_result" where
  "process_all f [] c = Inr c"
| "process_all f (p # ps) c = rbind (f p c) (process_all f ps)"

definition decoder_worker ::
  "('s, 'e, 't, 'g, 'z) ledger_tx_scheme \<Rightarrow> packet_data list \<Rightarrow> 'g processor \<Rightarrow>
   ('g processor \<times> 's deshred_manager mutex) io_result" where
  "decoder_worker L packets ps = process_all (process_shred L) packets (ps, mutex_new dm_new)"

section \<open>Header round trips\<close>

lemma extract_slot_fast_header:
  assumes "length sig = 64"
  shows "extract_slot_fast (sig @ [variant] @ to_le_bytes 8 slot @ rest) = Some slot"
  using assms by (simp add: extract_slot_fast_def subslice_def from_to_le_bytes)

lemma extract_slot_fast_None: "extract_slot_fast payload = None \<longleftrightarrow> length payload < 73"
  by (auto simp: extract_slot_fast_def subslice_def)

text \<open>The comment lists \<^verbatim>\<open>0xA0\<close> with the data variants; the code rejects it.\<close>

lemma parse_shred_type_A0:
  assumes "83 \<le> length data" "data ! 0x40 AND 0xF0 = 0xA0"
  shows "parse_shred_type data = None"
  using assms by (simp add: parse_shred_type_def)

lemma length_pad_decimal: "1 \<le> w \<Longrightarrow> n < 10 ^ w \<Longrightarrow> length (pad_decimal w n) = w"
proof (induction w n rule: pad_decimal.induct)
  case (1 w n)
  show ?case
  proof (cases "n < 10")
    case True
    then show ?thesis using "1.prems"(1) by (simp add: pad_decimal.simps [of w n])
  next
    case False
    then have "w \<noteq> 1" using "1.prems"(2) by auto
    then obtain v where w: "w = Suc v" "1 \<le> v" using "1.prems"(1) by (cases w) auto
    then have "n div 10 < 10 ^ v" using "1.prems"(2) by (simp add: less_mult_imp_div_less)
    then show ?thesis using "1.IH" [OF False] w by (simp add: pad_decimal.simps [of "Suc v" n] False)
  qed
qed

lemma format_timestamp_length: "0 \<le> t \<Longrightarrow> length (format_timestamp t) = 18"
proof -
  have "s div 3600 mod 24 < 10 ^ 2" "s div 60 mod 60 < 10 ^ 2" "s mod 60 < 10 ^ 2" "s mod 1000000000 < 10 ^ 9" for s :: nat
    using mod_less_divisor [of 24 "s div 3600"] mod_less_divisor [of 60 "s div 60"] mod_less_divisor [of 60 s]
      mod_less_divisor [of 1000000000 s] by simp_all
  then show "0 \<le> t \<Longrightarrow> length (format_timestamp t) = 18"
    by (simp add: format_timestamp_def Let_def length_pad_decimal)
qed

section \<open>Every packet is counted once\<close>

definition stats_balanced :: "shred_stats \<Rightarrow> bool" where
  "stats_balanced st \<longleftrightarrow> st_received st = st_decoded st + st_errors st \<and>
     st_decoded st = st_data_shreds st + st_code_shreds st"

lemma count_simps [simp]:
  "st_received (count_received st) = st_received st + 1" "st_received (count_error st) = st_received st"
  "st_received (count_decoded ty st) = st_received st"
  "stats_balanced st \<Longrightarrow> stats_balanced (count_error (count_received st))"
  "stats_balanced st \<Longrightarrow> stats_balanced (count_decoded ty (count_received st))"
  by (cases ty; simp add: count_received_def count_error_def count_decoded_def stats_balanced_def algebra_simps)+

text \<open>A report about a packet: its slot is the slot of the shred the packet holds, and no
  transaction below the size of a vote is listed.\<close>

definition packet_slot :: "('s, 'e, 't, 'g, 'z) ledger_tx_scheme \<Rightarrow> packet_data_ref \<Rightarrow> u64 option" where
  "packet_slot L packet = (if pr_shred_type packet = None then None else map_option (sh_slot L) (ld_parse L (pr_payload packet)))"

fun line_ok :: "('s, 'e, 't, 'g, 'z) ledger_tx_scheme \<Rightarrow> packet_data_ref \<Rightarrow> 'g log_line \<Rightarrow> bool" where
  "line_ok L packet (Parsed slot index) \<longleftrightarrow> packet_slot L packet = Some slot"
| "line_ok L packet (DeshredLine ts sip sport dip dport slot n k) \<longleftrightarrow> packet_slot L packet = Some slot"
| "line_ok L packet (TxLine ts sip sport dip dport slot entry_idx len sz sig) \<longleftrightarrow>
     packet_slot L packet = Some slot \<and> VOTE_TXN_SIZE_THRESHOLD \<le> sz \<and> len = pr_packet_len packet"
| "line_ok L packet (ErrorLine n) \<longleftrightarrow> packet_slot L packet = None"
| "line_ok L packet _ \<longleftrightarrow> False"

lemma ref_tx_lines_ok:
  "l \<in> set (ref_tx_lines L packet slot i txn) \<Longrightarrow> packet_slot L packet = Some slot \<Longrightarrow> line_ok L packet l"
  by (auto simp: ref_tx_lines_def not_less split: if_splits list.splits)

lemma ref_report_ok:
  assumes "packet_slot L packet = Some slot" "l \<in> set (ref_report L packet (slot, es, p))"
  shows "line_ok L packet l"
  using assms by (auto simp: ref_report_def ref_tx_lines_ok)

context deshred_trait
begin

lemma process_ref_step:
  assumes "slot_of = sh_slot L" "inv m" "process_shred_ref L add packet (ps, m) = Inr (ps', m')"
  shows "inv m' \<and> (stats_balanced (ps_stats ps) \<longrightarrow> stats_balanced (ps_stats ps')) \<and>
    st_received (ps_stats ps') = st_received (ps_stats ps) + 1 \<and>
    (\<exists>ls. ps_log ps' = ps_log ps @ ls \<and> (\<forall>l \<in> set ls. line_ok L packet l))"
proof (cases "pr_shred_type packet")
  case None
  then show ?thesis using assms by (auto simp: process_shred_ref_def Let_def packet_slot_def)
next
  case (Some ty)
  show ?thesis
  proof (cases "ld_parse L (pr_payload packet)")
    case None
    then show ?thesis using Some assms by (auto simp: process_shred_ref_def Let_def packet_slot_def)
  next
    case (Some shred)
    obtain out m1 where a: "add shred m = Inr (out, m1)"
      using assms(3) Some \<open>pr_shred_type packet = Some ty\<close>
      by (cases "add shred m") (auto simp: process_shred_ref_def Let_def)
    have slot: "packet_slot L packet = Some (sh_slot L shred)"
      using Some \<open>pr_shred_type packet = Some ty\<close> by (simp add: packet_slot_def)
    have "fits slot_of deser shred out" by (rule add_fits [OF assms(2) a])
    then have "\<forall>l \<in> set (ref_report L packet d). line_ok L packet l" if "out = Some d" for d
      using that slot ref_report_ok [of L packet] assms(1) by (cases d) (auto simp: fits_def)
    then show ?thesis
      using assms(3) Some \<open>pr_shred_type packet = Some ty\<close> a slot add_inv [OF assms(2) a]
      by (cases out) (auto simp: process_shred_ref_def Let_def)
  qed
qed

lemma process_ref_all:
  assumes "slot_of = sh_slot L" "inv m" "process_all (process_shred_ref L add) packets (ps, m) = Inr (ps', m')"
    and "stats_balanced (ps_stats ps)"
  shows "inv m' \<and> stats_balanced (ps_stats ps') \<and>
    st_received (ps_stats ps') = st_received (ps_stats ps) + of_nat (length packets) \<and>
    (\<exists>ls. ps_log ps' = ps_log ps @ ls \<and> (\<forall>l \<in> set ls. \<exists>packet \<in> set packets. line_ok L packet l))"
  using assms(2-4)
proof (induction packets arbitrary: ps m)
  case (Cons packet packets)
  obtain ps1 m1 where s: "process_shred_ref L add packet (ps, m) = Inr (ps1, m1)"
    using Cons.prems(2) by (cases "process_shred_ref L add packet (ps, m)") auto
  note a = process_ref_step [OF assms(1) Cons.prems(1) s]
  obtain ls where ls: "ps_log ps1 = ps_log ps @ ls" "\<forall>l \<in> set ls. line_ok L packet l" using a by blast
  have "process_all (process_shred_ref L add) packets (ps1, m1) = Inr (ps', m')" using Cons.prems(2) s by simp
  from Cons.IH [OF _ this] a Cons.prems(3)
  have b: "inv m'" "stats_balanced (ps_stats ps')" "st_received (ps_stats ps') = st_received (ps_stats ps1) + of_nat (length packets)"
    "\<exists>ls. ps_log ps' = ps_log ps1 @ ls \<and> (\<forall>l \<in> set ls. \<exists>packet \<in> set packets. line_ok L packet l)" by blast+
  obtain ls' where "ps_log ps' = ps_log ps1 @ ls'" "\<forall>l \<in> set ls'. \<exists>packet \<in> set packets. line_ok L packet l" using b(4) by blast
  then have "ps_log ps' = ps_log ps @ (ls @ ls') \<and> (\<forall>l \<in> set (ls @ ls'). \<exists>q \<in> set (packet # packets). line_ok L q l)"
    using ls by auto
  then show ?case using a b(1-3) by (intro conjI) (auto simp: algebra_simps)
qed auto

end

context total_deshred_trait
begin

lemma process_ref_total:
  assumes "slot_of = sh_slot L" "inv m"
  shows "\<exists>ps' m'. process_all (process_shred_ref L add) packets (ps, m) = Inr (ps', m')"
  using assms(2)
proof (induction packets arbitrary: ps m)
  case (Cons packet packets)
  have "\<exists>ps' m'. process_shred_ref L add packet (ps, m) = Inr (ps', m')"
  proof (cases "ld_parse L (pr_payload packet)")
    case None
    then show ?thesis by (auto simp: process_shred_ref_def Let_def split: option.split)
  next
    case (Some shred)
    obtain out m1 where "add shred m = Inr (out, m1)" using add_total [OF Cons.prems] by blast
    then show ?thesis using Some by (auto simp: process_shred_ref_def Let_def split: option.split)
  qed
  then obtain ps1 m1 where s: "process_shred_ref L add packet (ps, m) = Inr (ps1, m1)" by blast
  have "inv m1" using process_ref_step [OF assms(1) Cons.prems s] by blast
  with Cons.IH [of m1 ps1] s show ?case by simp
qed simp

end


interpretation mx: total_deshred_trait "sh_slot L" "ld_deserialize L" "mutex_add_shred L"
  "\<lambda>mx. \<not> mx_poisoned mx \<and> dm_wf L (mx_value mx)" for L
proof unfold_locales
  fix mx mx' :: "'a deshred_manager mutex" and x :: 'a and out
  assume i: "\<not> mx_poisoned mx \<and> dm_wf L (mx_value mx)"
  obtain out1 m1 where a: "dm_add_shred L x (mx_value mx) = Inr (out1, m1)" "dm_wf L m1" "fits (sh_slot L) (ld_deserialize L) x out1"
    using dm_add_shred_total [of L "mx_value mx" x] i by blast
  then have r: "mutex_add_shred L x mx = Inr (out1, mx\<lparr>mx_value := m1\<rparr>)"
    using i by (simp add: mutex_add_shred_def mutex_lock_def)
  then show "\<exists>out mx'. mutex_add_shred L x mx = Inr (out, mx')" by blast
  assume "mutex_add_shred L x mx = Inr (out, mx')"
  with r a i show "\<not> mx_poisoned mx' \<and> dm_wf L (mx_value mx')" "fits (sh_slot L) (ld_deserialize L) x out" by auto
qed

lemma process_shred_step:
  assumes "\<not> mx_poisoned mx" "dm_wf L (mx_value mx)"
  shows "\<exists>ps' mx'. process_shred L packet (ps, mx) = Inr (ps', mx') \<and> \<not> mx_poisoned mx' \<and> dm_wf L (mx_value mx') \<and>
    (stats_balanced (ps_stats ps) \<longrightarrow> stats_balanced (ps_stats ps')) \<and>
    st_received (ps_stats ps') = st_received (ps_stats ps) + 1"
proof (cases "parse_shred L (pd_payload packet)")
  case None
  then show ?thesis using assms by (simp add: process_shred_def Let_def)
next
  case (Some shred)
  obtain out m1 where "dm_add_shred L shred (mx_value mx) = Inr (out, m1)" "dm_wf L m1"
    using dm_add_shred_total [OF assms(2)] by blast
  then show ?thesis using Some assms dm_cleanup_wf [of L m1]
    by (cases out) (simp_all add: process_shred_def Let_def mutex_lock_def)
qed

lemma process_shred_all:
  assumes "\<not> mx_poisoned mx" "dm_wf L (mx_value mx)" "stats_balanced (ps_stats ps)"
  shows "\<exists>ps' mx'. process_all (process_shred L) packets (ps, mx) = Inr (ps', mx') \<and> dm_wf L (mx_value mx') \<and>
    stats_balanced (ps_stats ps') \<and> st_received (ps_stats ps') = st_received (ps_stats ps) + of_nat (length packets)"
  using assms
proof (induction packets arbitrary: ps mx)
  case (Cons packet packets)
  obtain ps1 mx1 where s: "process_shred L packet (ps, mx) = Inr (ps1, mx1)" "\<not> mx_poisoned mx1" "dm_wf L (mx_value mx1)"
    "stats_balanced (ps_stats ps1)" "st_received (ps_stats ps1) = st_received (ps_stats ps) + 1"
    using process_shred_step [OF Cons.prems(1,2), of packet ps] Cons.prems(3) by blast
  from Cons.IH [OF s(2-4)] s(1,5) show ?case by (auto simp: algebra_simps)
qed auto

lemma processor_new_simps [simp]: "stats_balanced (ps_stats processor_new)" "st_received (ps_stats processor_new) = 0" "ps_log processor_new = []"
  by (simp_all add: processor_new_def shred_stats_new_def stats_balanced_def)

text \<open>
  What the processor leaves behind after a list of packets: balanced counters, and a log whose
  every line is about one of the packets.
\<close>

definition refs_processed :: "('s, 'e, 't, 'g, 'z) ledger_tx_scheme \<Rightarrow> packet_data_ref list \<Rightarrow> 'g processor \<Rightarrow> bool" where
  "refs_processed L refs qs \<longleftrightarrow> stats_balanced (ps_stats qs) \<and> st_received (ps_stats qs) = of_nat (length refs) \<and>
     list_all (\<lambda>l. list_ex (\<lambda>packet. line_ok L packet l) refs) (ps_log qs)"

text \<open>The lock-free manager can panic; when it does not, the same holds of it.\<close>

lemma sharded_processing:
  assumes "process_all (process_shred_ref L (dl_add_shred L)) refs (processor_new, dl_new) = Inr (qs, m)"
  shows "refs_processed L refs qs"
  using dl.process_ref_all [OF refl dl_new_wf assms] by (auto simp: refs_processed_def list_all_iff list_ex_iff)

text \<open>C35. Processing packets counts each packet once. For every sequence of packets
  \<^verbatim>\<open>decoder_worker\<close>, which has the manager behind a mutex, and \<^verbatim>\<open>process_shred_ref\<close> with the same manager
  run to the end without a panic. For every sequence on which \<^verbatim>\<open>process_shred_ref\<close> with the lock-free
  manager does not panic (it can), the same holds of it. In all three cases the packets received
  are those decoded plus those in error, and the decoded ones are data plus code shreds. The log
  is stated for \<^verbatim>\<open>process_shred_ref\<close> only: it reports a slot only for a packet that holds a shred of
  that slot, and lists no transaction smaller than 400 bytes.\<close>

theorem shred_processing_balanced:
  "\<exists>ps mx qs mx'. decoder_worker L packets processor_new = Inr (ps, mx) \<and> stats_balanced (ps_stats ps) \<and>
     st_received (ps_stats ps) = of_nat (length packets) \<and>
     process_all (process_shred_ref L (mutex_add_shred L)) refs (processor_new, mutex_new dm_new) = Inr (qs, mx') \<and>
     refs_processed L refs qs \<and>
     (case process_all (process_shred_ref L (dl_add_shred L)) refs (processor_new, dl_new) of
        Inl _ \<Rightarrow> True
      | Inr (rs, _) \<Rightarrow> refs_processed L refs rs)"
proof -
  have i: "\<not> mx_poisoned (mutex_new dm_new) \<and> dm_wf L (mx_value (mutex_new dm_new))"
    by (simp add: mutex_new_def dm_new_wf)
  obtain ps mx where p: "decoder_worker L packets processor_new = Inr (ps, mx)" "stats_balanced (ps_stats ps)"
    "st_received (ps_stats ps) = of_nat (length packets)"
    using process_shred_all [of "mutex_new dm_new" L processor_new packets] i by (auto simp: decoder_worker_def)
  obtain qs mx' where q: "process_all (process_shred_ref L (mutex_add_shred L)) refs (processor_new, mutex_new dm_new) = Inr (qs, mx')"
    using mx.process_ref_total [OF refl i] by blast
  from mx.process_ref_all [OF refl i q] have "refs_processed L refs qs"
    by (auto simp: refs_processed_def list_all_iff list_ex_iff)
  moreover have "case process_all (process_shred_ref L (dl_add_shred L)) refs (processor_new, dl_new) of
      Inl _ \<Rightarrow> True | Inr (rs, _) \<Rightarrow> refs_processed L refs rs"
    using sharded_processing by (auto split: sum.split)
  ultimately show ?thesis using p q by blast
qed

end
