(* ===== verification/Packet_Event.thy ===== *)
theory Packet_Event
  imports Deshred Umem
begin

text \<open>
  \<^verbatim>\<open>src/examples/disruptor_event.rs\<close>: an event of the ring buffer refers to a packet by its place
  in the frame memory instead of copying it. The memory the base pointer points to is a list of
  bytes; building a slice that leaves it is undefined behaviour.
\<close>

record packet_event =
  ev_umem_offset :: usize
  ev_payload_offset :: usize
  ev_payload_len :: usize
  ev_packet_len :: usize
  ev_src_ip :: "u8 \<times> u8 \<times> u8 \<times> u8"
  ev_src_port :: u16
  ev_dst_ip :: "u8 \<times> u8 \<times> u8 \<times> u8"
  ev_dst_port :: u16
  ev_timestamp :: int
  ev_shred_type :: "shred_type option"
  ev_valid :: bool

definition event_factory :: packet_event where
  "event_factory =
     \<lparr>ev_umem_offset = 0, ev_payload_offset = 0, ev_payload_len = 0, ev_packet_len = 0, ev_src_ip = (0, 0, 0, 0),
      ev_src_port = 0, ev_dst_ip = (0, 0, 0, 0), ev_dst_port = 0, ev_timestamp = 0, ev_shred_type = None, ev_valid = False\<rparr>"

definition event_reset :: "packet_event \<Rightarrow> packet_event" where
  "event_reset ev = ev\<lparr>ev_valid := False, ev_shred_type := None\<rparr>"

definition set_from_umem ::
  "usize \<Rightarrow> usize \<Rightarrow> usize \<Rightarrow> usize \<Rightarrow> u8 \<times> u8 \<times> u8 \<times> u8 \<Rightarrow> u16 \<Rightarrow> u8 \<times> u8 \<times> u8 \<times> u8 \<Rightarrow> u16 \<Rightarrow> int \<Rightarrow>
   shred_type option \<Rightarrow> packet_event \<Rightarrow> packet_event" where
  "set_from_umem umem_offset payload_offset payload_len packet_len src_ip src_port dst_ip dst_port timestamp shred_type ev =
     ev\<lparr>ev_umem_offset := umem_offset, ev_payload_offset := payload_offset, ev_payload_len := payload_len,
        ev_packet_len := packet_len, ev_src_ip := src_ip, ev_src_port := src_port, ev_dst_ip := dst_ip,
        ev_dst_port := dst_port, ev_timestamp := timestamp, ev_shred_type := shred_type, ev_valid := True\<rparr>"

text \<open>\<^verbatim>\<open>slice::from_raw_parts\<close> at an offset of the memory.\<close>

definition raw_parts :: "nat \<Rightarrow> nat \<Rightarrow> u8 list \<Rightarrow> u8 list io_result" where
  "raw_parts at len mem =
     (case subslice at (at + len) mem of
        None \<Rightarrow> Inl (Undefined ''slice outside the allocation'')
      | Some bytes \<Rightarrow> Inr bytes)"

definition payload_slice :: "packet_event \<Rightarrow> u8 list \<Rightarrow> u8 list io_result" where
  "payload_slice ev mem = raw_parts (unat (ev_umem_offset ev) + unat (ev_payload_offset ev)) (unat (ev_payload_len ev)) mem"

definition packet_slice :: "packet_event \<Rightarrow> u8 list \<Rightarrow> u8 list io_result" where
  "packet_slice ev mem = raw_parts (unat (ev_umem_offset ev)) (unat (ev_packet_len ev)) mem"

text \<open>An event for a frame reads what the frame maps to, and its payload lies inside that.\<close>

lemma event_reads_frame:
  assumes "map_frame um f = Some bytes" "unat po + unat pl \<le> unat (fr_len f)"
  shows "packet_slice (set_from_umem (fr_offset f) po pl (fr_len f) si sp di dp t ty ev) (buffer um) = Inr bytes \<and>
    payload_slice (set_from_umem (fr_offset f) po pl (fr_len f) si sp di dp t ty ev) (buffer um) =
      Inr (take (unat pl) (drop (unat po) bytes))"
proof -
  have m: "unat (fr_offset f) + unat (fr_len f) \<le> length (buffer um)"
    "bytes = take (unat (fr_len f)) (drop (unat (fr_offset f)) (buffer um))"
    using assms(1) by (auto simp: map_frame_def subslice_def split: if_splits)
  then show ?thesis using assms(2)
    by (simp add: packet_slice_def payload_slice_def set_from_umem_def raw_parts_def subslice_def drop_take min_def add.commute)
qed

lemma reset_event_invalid: "\<not> ev_valid (event_reset ev)" "ev_shred_type (event_reset ev) = None"
  by (simp_all add: event_reset_def)

end
