(* ===== verification/Raw_Socket.thy ===== *)
theory Raw_Socket
  imports Axdp_Prelude
begin

text \<open>
  \<^verbatim>\<open>src/src/raw_socket.rs\<close>: a packet socket bound to an interface. The system calls are a
  parameter: \<open>rs_call\<close> answers a call, given the calls before it, with an error number or a result,
  and the operations return the calls they made along with their result. \<open>rs_recv\<close> is \<^verbatim>\<open>recv\<close>,
  which answers with the bytes it puts at the front of the buffer.
\<close>

section \<open>Calls\<close>

abbreviation AF_PACKET :: int where "AF_PACKET \<equiv> 17"
abbreviation SOCK_RAW :: int where "SOCK_RAW \<equiv> 3"
abbreviation ETH_P_ALL :: u16 where "ETH_P_ALL \<equiv> 3"
abbreviation SOL_SOCKET :: int where "SOL_SOCKET \<equiv> 1"
abbreviation SOL_PACKET :: int where "SOL_PACKET \<equiv> 263"
abbreviation SO_DEBUG :: int where "SO_DEBUG \<equiv> 1"
abbreviation SO_RCVBUF :: int where "SO_RCVBUF \<equiv> 8"
abbreviation SO_BUSY_POLL :: int where "SO_BUSY_POLL \<equiv> 46"
abbreviation SO_PREFER_BUSY_POLL :: int where "SO_PREFER_BUSY_POLL \<equiv> 69"
abbreviation PACKET_ADD_MEMBERSHIP :: int where "PACKET_ADD_MEMBERSHIP \<equiv> 1"
abbreviation PACKET_MR_PROMISC :: u16 where "PACKET_MR_PROMISC \<equiv> 1"
abbreviation ENOPROTOOPT :: int where "ENOPROTOOPT \<equiv> 92"
abbreviation MSG_DONTWAIT :: int where "MSG_DONTWAIT \<equiv> 64"

definition u16_to_be :: "u16 \<Rightarrow> u16" where
  "u16_to_be w = push_bit 8 w OR drop_bit 8 w"

record sockaddr_ll =
  sll_family :: int
  sll_protocol :: u16
  sll_ifindex :: i32
  sll_hatype :: u16
  sll_pkttype :: u8
  sll_halen :: u8
  sll_addr :: "u8 list"

record packet_mreq =
  mr_ifindex :: i32
  mr_type :: u16
  mr_alen :: u16
  mr_address :: "u8 list"

datatype raw_call =
    CallSocket int int i32
  | CallSetInt int int int i32
  | CallSetMreq int int int packet_mreq
  | CallBind int sockaddr_ll

record raw_sys =
  rs_call :: "raw_call list \<Rightarrow> raw_call \<Rightarrow> int + int"
  rs_recv :: "int \<Rightarrow> nat \<Rightarrow> int \<Rightarrow> int + u8 list"

text \<open>One call after those made so far, and what follows if it succeeds.\<close>

definition raw_then ::
  "raw_sys \<Rightarrow> raw_call \<Rightarrow> (int \<Rightarrow> raw_call list \<Rightarrow> raw_call list \<times> 'a io_result) \<Rightarrow> raw_call list \<Rightarrow> raw_call list \<times> 'a io_result" where
  "raw_then sys c k calls =
     (case rs_call sys calls c of
        Inl errno \<Rightarrow> (calls @ [c], Inl (IoErr (LastOsError errno)))
      | Inr v \<Rightarrow> k v (calls @ [c]))"

section \<open>The socket\<close>

record raw_socket =
  rw_fd :: int
  rw_if_index :: u32

definition raw_new :: "raw_sys \<Rightarrow> u32 \<Rightarrow> usize \<Rightarrow> raw_call list \<Rightarrow> raw_call list \<times> raw_socket io_result" where
  "raw_new sys if_index recv_buf_size =
     raw_then sys (CallSocket AF_PACKET SOCK_RAW (ucast (u16_to_be ETH_P_ALL))) (\<lambda>fd.
     raw_then sys (CallSetInt fd SOL_SOCKET SO_RCVBUF (ucast recv_buf_size)) (\<lambda>_.
     raw_then sys (CallBind fd \<lparr>sll_family = AF_PACKET, sll_protocol = u16_to_be ETH_P_ALL, sll_ifindex = if_index,
         sll_hatype = 0, sll_pkttype = 0, sll_halen = 0, sll_addr = replicate 8 0\<rparr>) (\<lambda>_.
     raw_then sys (CallSetMreq fd SOL_SOCKET PACKET_ADD_MEMBERSHIP \<lparr>mr_ifindex = if_index, mr_type = PACKET_MR_PROMISC,
         mr_alen = 0, mr_address = replicate 8 0\<rparr>) (\<lambda>_ calls.
     (calls, Inr \<lparr>rw_fd = fd, rw_if_index = if_index\<rparr>)))))"

definition set_busy_poll :: "raw_sys \<Rightarrow> u32 \<Rightarrow> raw_socket \<Rightarrow> raw_call list \<Rightarrow> raw_call list \<times> unit io_result" where
  "set_busy_poll sys micros s =
     raw_then sys (CallSetInt (rw_fd s) SOL_SOCKET SO_BUSY_POLL micros) (\<lambda>_ calls. (calls, Inr ()))"

definition set_prefer_busy_poll :: "raw_sys \<Rightarrow> bool \<Rightarrow> raw_socket \<Rightarrow> raw_call list \<Rightarrow> raw_call list \<times> unit io_result" where
  "set_prefer_busy_poll sys enable s calls =
     (let c = CallSetInt (rw_fd s) SOL_SOCKET SO_PREFER_BUSY_POLL (if enable then 1 else 0) in
      case rs_call sys calls c of
        Inl errno \<Rightarrow> (calls @ [c], if errno = ENOPROTOOPT then Inr () else Inl (IoErr (LastOsError errno)))
      | Inr _ \<Rightarrow> (calls @ [c], Inr ()))"

definition raw_recv_flags :: "raw_sys \<Rightarrow> int \<Rightarrow> raw_socket \<Rightarrow> u8 list \<Rightarrow> (nat \<times> u8 list) io_result" where
  "raw_recv_flags sys flags s buf =
     (case rs_recv sys (rw_fd s) (length buf) flags of
        Inl errno \<Rightarrow> Inl (IoErr (LastOsError errno))
      | Inr bytes \<Rightarrow> Inr (length bytes, bytes @ drop (length bytes) buf))"

definition raw_recv :: "raw_sys \<Rightarrow> raw_socket \<Rightarrow> u8 list \<Rightarrow> (nat \<times> u8 list) io_result" where
  "raw_recv sys = raw_recv_flags sys 0"

definition raw_recv_nonblock :: "raw_sys \<Rightarrow> raw_socket \<Rightarrow> u8 list \<Rightarrow> (nat \<times> u8 list) io_result" where
  "raw_recv_nonblock sys = raw_recv_flags sys MSG_DONTWAIT"

definition raw_if_index :: "raw_socket \<Rightarrow> u32" where
  "raw_if_index s = rw_if_index s"

section \<open>What the calls achieve\<close>

text \<open>\<^verbatim>\<open>recv\<close> as the system documents it: at most the length of the buffer.\<close>

definition recv_bounded :: "raw_sys \<Rightarrow> bool" where
  "recv_bounded sys \<longleftrightarrow> (\<forall>fd n flags bytes. rs_recv sys fd n flags = Inr bytes \<longrightarrow> length bytes \<le> n)"

lemma raw_recv_in_buffer:
  assumes "recv_bounded sys" "raw_recv_flags sys flags s buf = Inr (n, buf')"
  shows "n \<le> length buf \<and> length buf' = length buf \<and> drop n buf' = drop n buf \<and>
    rs_recv sys (rw_fd s) (length buf) flags = Inr (take n buf')"
  using assms by (auto simp: raw_recv_flags_def recv_bounded_def split: sum.splits)

lemma raw_new_ok:
  assumes "raw_new sys if_index size' calls = (calls', Inr s)"
  shows "raw_if_index s = if_index \<and> length calls' = length calls + 4 \<and>
    rs_call sys calls (CallSocket AF_PACKET SOCK_RAW 0x300) = Inr (rw_fd s)"
  using assms by (auto simp: raw_new_def raw_then_def raw_if_index_def u16_to_be_def split: sum.splits)

fun option_level :: "raw_call \<Rightarrow> int option" where
  "option_level (CallSetInt fd level name v) = Some level"
| "option_level (CallSetMreq fd level name v) = Some level"
| "option_level _ = None"

text \<open>
  The socket never becomes promiscuous: the membership is requested at the level \<^verbatim>\<open>SOL_SOCKET\<close>,
  where its number is that of \<^verbatim>\<open>SO_DEBUG\<close>, and no option is ever set at \<^verbatim>\<open>SOL_PACKET\<close>.
\<close>

lemma raw_new_never_sol_packet:
  "\<forall>c \<in> set (fst (raw_new sys if_index size' [])). option_level c \<noteq> Some SOL_PACKET"
  by (simp add: raw_new_def raw_then_def split: sum.split)

lemma membership_is_debug: "PACKET_ADD_MEMBERSHIP = SO_DEBUG"
  by (rule refl)

end
