(* ===== verification/Repo_Tests.thy ===== *)
theory Repo_Tests
  imports Ring Route
begin

text \<open>
  The unit tests of the repository, in \<^verbatim>\<open>src/src/device.rs\<close> and \<^verbatim>\<open>src/src/route.rs\<close>, run on the
  model: each test is the list of what it does and asserts, and the model passes it. The test of
  the router reads the routes of the machine it runs on and is left out.
\<close>

section \<open>Rings\<close>

text \<open>What a test does: an assertion on a result, a call, or a change of the counter that the
  kernel owns.\<close>

datatype ring_act =
    Available u32
  | Next "u32 option"
  | Commit
  | Sync
  | Store u32
  | FetchAdd u32

fun producer_script :: "ring_act list \<Rightarrow> ring_producer \<Rightarrow> unit ring_mem \<Rightarrow> bool" where
  "producer_script [] p m \<longleftrightarrow> True"
| "producer_script (Available n # as) p m \<longleftrightarrow> producer_available p = n \<and> producer_script as p m"
| "producer_script (Next r # as) p m \<longleftrightarrow> (case produce p of (r', p) \<Rightarrow> r' = r \<and> producer_script as p m)"
| "producer_script (Commit # as) p m \<longleftrightarrow> producer_script as p (producer_commit p m)"
| "producer_script (Sync # as) p m \<longleftrightarrow> (case producer_sync True p m of (p, m) \<Rightarrow> producer_script as p m)"
| "producer_script (Store n # as) p m \<longleftrightarrow> producer_script as p (m\<lparr>rm_consumer := n\<rparr>)"
| "producer_script (FetchAdd n # as) p m \<longleftrightarrow> producer_script as p (m\<lparr>rm_consumer := rm_consumer m + n\<rparr>)"

fun consumer_script :: "ring_act list \<Rightarrow> ring_consumer \<Rightarrow> unit ring_mem \<Rightarrow> bool" where
  "consumer_script [] c m \<longleftrightarrow> True"
| "consumer_script (Available n # as) c m \<longleftrightarrow> consumer_available c = n \<and> consumer_script as c m"
| "consumer_script (Next r # as) c m \<longleftrightarrow> (case consume c of (r', c) \<Rightarrow> r' = r \<and> consumer_script as c m)"
| "consumer_script (Commit # as) c m \<longleftrightarrow> consumer_script as c (consumer_commit c m)"
| "consumer_script (Sync # as) c m \<longleftrightarrow> (case consumer_sync True c m of (c, m) \<Rightarrow> consumer_script as c m)"
| "consumer_script (Store n # as) c m \<longleftrightarrow> consumer_script as c (m\<lparr>rm_producer := n\<rparr>)"
| "consumer_script (FetchAdd n # as) c m \<longleftrightarrow> consumer_script as c (m\<lparr>rm_producer := rm_producer m + n\<rparr>)"

definition counters :: "u32 \<Rightarrow> u32 \<Rightarrow> unit ring_mem" where
  "counters prd cns = \<lparr>rm_producer = prd, rm_consumer = cns, rm_desc = (\<lambda>_. ()), rm_flags = 0\<rparr>"

text \<open>The loop \<^verbatim>\<open>for i in 0..size\<close> of two of the tests.\<close>

definition use_all :: "ring_act list" where
  "use_all = concat (map (\<lambda>i. [Next (Some (of_nat i)), Available (of_nat (16 - i - 1))]) [0..<16])"

definition test_ring_producer :: bool where
  "test_ring_producer \<longleftrightarrow> (let m = counters 0 0 in
     producer_script ([Available 16] @ use_all @
       [Next None, Store 1, Next None, Commit, Next None, Sync, Next (Some 16), Next None, Store 2, Sync, Next (Some 17)])
       (producer_new m 16) m)"

definition test_ring_producer_wrap_around :: bool where
  "test_ring_producer_wrap_around \<longleftrightarrow> (let m = counters (- 1 - 1) (- 1 - 16 - 1) in
     producer_script [Available 0, FetchAdd 1, Sync, Next (Some (- 1 - 1)), FetchAdd 1, Sync, Next (Some (- 1)),
       FetchAdd 1, Sync, Next (Some 0), FetchAdd 1, Sync, Next (Some 1)]
       (producer_new m 16) m)"

definition test_ring_consumer :: bool where
  "test_ring_consumer \<longleftrightarrow> (let m = counters 0 0 in
     consumer_script ([Available 0, Store 1, Available 0, Sync, Available 1, Store 16, Sync] @ use_all @ [Next None])
       (consumer_new m) m)"

definition test_ring_consumer_wrap_around :: bool where
  "test_ring_consumer_wrap_around \<longleftrightarrow> (let m = counters (- 1 - 1) (- 1 - 1) in
     consumer_script [Available 0, Next None, FetchAdd 1, Sync, Next (Some (- 1 - 1)), Store 0, Sync, Available 1,
       Next (Some (- 1)), FetchAdd 1, Sync, Next (Some 0), FetchAdd 1, Sync, Next (Some 1)]
       (consumer_new m) m)"

lemma use_all_eq: "use_all =
  [Next (Some 0), Available 15, Next (Some 1), Available 14, Next (Some 2), Available 13, Next (Some 3), Available 12,
   Next (Some 4), Available 11, Next (Some 5), Available 10, Next (Some 6), Available 9, Next (Some 7), Available 8,
   Next (Some 8), Available 7, Next (Some 9), Available 6, Next (Some 10), Available 5, Next (Some 11), Available 4,
   Next (Some 12), Available 3, Next (Some 13), Available 2, Next (Some 14), Available 1, Next (Some 15), Available 0]"
  by (simp add: use_all_def upt_rec)

lemmas ring_ops =
  producer_new_def producer_available_def produce_def producer_commit_def producer_sync_def saturating_sub_def
  consumer_new_def consumer_available_def consume_def consumer_commit_def consumer_sync_def counters_def Let_def

lemma ring_producer_tests_pass: "test_ring_producer" "test_ring_producer_wrap_around"
  by (simp_all add: test_ring_producer_def test_ring_producer_wrap_around_def use_all_eq ring_ops)

lemma ring_consumer_tests_pass: "test_ring_consumer" "test_ring_consumer_wrap_around"
  by (simp_all add: test_ring_consumer_def test_ring_consumer_wrap_around_def use_all_eq ring_ops)

section \<open>Prefixes\<close>

definition test_ipv4_match :: bool where
  "test_ipv4_match \<longleftrightarrow>
     is_ipv4_match (Ipv4Addr 192 168 1 10) (Ipv4Addr 192 168 1 0) 24 \<and>
     \<not> is_ipv4_match (Ipv4Addr 192 168 2 10) (Ipv4Addr 192 168 1 0) 24 \<and>
     is_ipv4_match (Ipv4Addr 1 2 3 4) (Ipv4Addr 0 0 0 0) 0"

definition test_ipv6_match :: bool where
  "test_ipv6_match \<longleftrightarrow>
     is_ipv6_match (Ipv6Addr 0x2001 0xdb8 0x1234 0x5678 0xabcd 0xef01 0x2345 0x6789)
       (Ipv6Addr 0x2001 0xdb8 0x1234 0x5678 0 0 0 0) 64 = Some True \<and>
     is_ipv6_match (Ipv6Addr 0x2001 0xdb8 0x1235 0x5678 0xabcd 0xef01 0x2345 0x6789)
       (Ipv6Addr 0x2001 0xdb8 0x1234 0x5678 0 0 0 0) 64 = Some False \<and>
     is_ipv6_match (Ipv6Addr 0x2001 0xdb8 0x1234 0x6700 0 0 0 0) (Ipv6Addr 0x2001 0xdb8 0x1234 0x6600 0 0 0 0) 52 = Some True \<and>
     is_ipv6_match (Ipv6Addr 0x2001 0xdb8 0x1234 0x6700 0 0 0 0) (Ipv6Addr 0x2001 0xdb8 0x1234 0x5600 0 0 0 0) 52 = Some False"

lemma prefix_tests_pass: "test_ipv4_match" "test_ipv6_match"
  by code_simp+

end
