(* ===== verification/Spec2Isabelle.thy ===== *)
theory Spec2Isabelle
  imports Rx_Loop Tx_Loop Relay_Main Packet_Pool Shred_Processor Packet_Event Raw_Socket Repo_Tests
begin

text \<open>
  A verification library for \<^verbatim>\<open>axdp\<close>, an AF_XDP networking library in Rust with loops that
  receive, send and relay UDP packets past the kernel's network stack, and examples that collect
  Solana shreds from such packets.

  \<^bold>\<open>The program.\<close> A frame allocator (\<^verbatim>\<open>umem.rs\<close>) hands out fixed-size frames of a memory shared
  with the kernel. Frames travel through four rings (\<^verbatim>\<open>device.rs\<close>, \<^verbatim>\<open>socket.rs\<close>): the program gives
  empty frames to the kernel in the fill ring and gets packets back in the receive ring; it queues
  packets in the transmit ring and gets the frames back in the completion ring. Each side owns one
  of a ring's two counters and caches the other. \<^verbatim>\<open>socket.rs\<close> sets the rings up, \<^verbatim>\<open>program.rs\<close> and
  \<^verbatim>\<open>xdp-ebpf\<close> steer packets to the socket. \<^verbatim>\<open>netlink.rs\<close> reads routes and neighbours from the
  kernel, \<^verbatim>\<open>route.rs\<close> chooses the next hop, \<^verbatim>\<open>packet.rs\<close> writes the headers. \<^verbatim>\<open>rx_loop.rs\<close>,
  \<^verbatim>\<open>tx_loop.rs\<close> and \<^verbatim>\<open>relay_loop.rs\<close> are the loops over all of these.

  \<^bold>\<open>The theories\<close>, with the sources under \<^verbatim>\<open>src/\<close> they model:

  \<^item> \<open>Axdp_Prelude\<close>: machine integers, failures (an operating system's error, a panic, undefined
    behaviour), slices and byte orders with their panics, and the shared lemmas on words and lists.
  \<^item> \<open>Slot_Pool\<close>: the locale of an allocator of slots and what its client may conclude. Interpreted
    for \<^verbatim>\<open>SliceUmem\<close> and for the packet pool.
  \<^item> \<open>Umem\<close> (\<^verbatim>\<open>src/umem.rs\<close>): frames, \<open>reserve\<close>, \<open>release\<close>, \<open>map_frame\<close>, the page-aligned memory.
    Frames in use never overlap and none is lost.
  \<^item> \<open>Ring\<close>, \<open>Spsc\<close> (\<^verbatim>\<open>src/device.rs\<close>): producer and consumer, fill and completion ring, and the locales
    \<open>ring_sender\<close> and \<open>ring_receiver\<close> of a ring shared with a peer that follows the protocol.
    Against every interleaving what is read is what was written, in order, without loss.
  \<^item> \<open>Net_Addr\<close>, \<open>Packet\<close> (\<^verbatim>\<open>src/packet.rs\<close>): header layout and both checksums.
  \<^item> \<open>Netlink\<close> (\<^verbatim>\<open>src/netlink.rs\<close>), \<open>Route\<close> (\<^verbatim>\<open>src/route.rs\<close>): parsing of messages and attributes,
    in which an unaligned read past the end of its buffer is undefined behaviour and a slice out of
    range a panic, is safe on arbitrary bytes and reads back encoded routes; lookup is
    longest-prefix match and the next hop has the MAC of the first neighbour with its address.
  \<^item> \<open>Device\<close> (\<^verbatim>\<open>src/device.rs\<close>), \<open>Xsk_Socket\<close> (\<^verbatim>\<open>src/socket.rs\<close>), \<open>Xdp_Program\<close> (\<^verbatim>\<open>src/program.rs\<close>,
    \<^verbatim>\<open>xdp-ebpf/src/main.rs\<close>): interfaces (the name field each query hands to the
    kernel, for names of any length), set-up of the rings and the socket, steering of packets. The
    number of entries of \<^verbatim>\<open>XSKS_MAP\<close> belongs to the map, a parameter.
  \<^item> \<open>Loop_Common\<close>, \<open>Rx_Loop\<close>, \<open>Tx_Loop\<close>, \<open>Relay_Loop\<close>, \<open>Relay_Main\<close> (\<^verbatim>\<open>src/rx_loop.rs\<close>, \<^verbatim>\<open>src/tx_loop.rs\<close>,
    \<^verbatim>\<open>src/relay_loop.rs\<close>, \<^verbatim>\<open>examples/relay.rs\<close>, affinity in \<^verbatim>\<open>src/lib.rs\<close>): the loops from their start-up
    on. They keep account of every frame (\<open>owned\<close>: each frame is free or held by exactly one party),
    send exactly the bytes they should, and publish what they queued, or provably do not.
  \<^item> \<open>Packet_Pool\<close> (\<^verbatim>\<open>examples/packet_pool.rs\<close>): the lock-free pool, sequentially and as interleaved
    accesses of any number of threads, which refine an atomic set of free slots.
  \<^item> \<open>Deshred\<close>, \<open>Deshred_Sharded\<close>, \<open>Shred_Processor\<close> (\<^verbatim>\<open>examples/deshred.rs\<close>, \<^verbatim>\<open>deshred_sharded.rs\<close>,
    \<^verbatim>\<open>shred_processor.rs\<close>): two managers of shreds behind the locale \<open>deshred_trait\<close>, which agree on
    slots of one segment, and the processor that is their client and counts each packet once.
  \<^item> \<open>Packet_Event\<close> (\<^verbatim>\<open>examples/disruptor_event.rs\<close>), \<open>Raw_Socket\<close> (\<^verbatim>\<open>src/raw_socket.rs\<close>).
  \<^item> \<open>Repo_Tests\<close>: the unit tests of \<^verbatim>\<open>device.rs\<close> and \<^verbatim>\<open>route.rs\<close>, run on the model.

  \<^bold>\<open>How state and effects correspond.\<close> A struct is a record with the source's fields; an operation
  takes the record and returns it updated. Ring memory is a value of type \<open>ring_mem\<close> that both sides
  change. System calls, the kernel's side of the rings, and the libraries \<^verbatim>\<open>aya\<close>, \<^verbatim>\<open>solana-ledger\<close> and
  \<^verbatim>\<open>bincode\<close> are parameters: records of functions, or lists of the changes the kernel makes. \<^verbatim>\<open>usize\<close> has
  64 bits. The flag \<open>dbg\<close> stands for a debug build, where assertions and overflow are checked.

  \<^bold>\<open>Loops and fuel.\<close> Loops over data are structurally recursive or have a termination proof. A loop
  that waits for the kernel takes the list of the kernel's steps, and \<^term>\<open>None\<close> is a run that still
  waits when the list ends; the theorems on it quantify over all lists, and liveness is stated as:
  given the steps that let it go on, it returns. What the kernel may do in a step is a hypothesis
  in terms of the ring protocol: for the transmit loop \<open>completes_frames\<close>, a step that appends any
  number of frames, or none, to the completion ring. \<open>acq_run\<close> takes a list that says for each step
  whether the weak compare-and-exchange fails for no reason; \<open>pool_words + 4\<close> steps, and two more
  for each such failure, are proved to be enough for an undisturbed thread.

  \<^bold>\<open>What the theorems found.\<close> Some theorems state what the code does where it differs from what it
  means to do: a receive-only socket never opens, completions of the relay are never published, a
  skipped packet leaves a batch unpublished and then keeps the final drain from ending, an oversized
  payload overwrites the next frame, the relay takes byte 23 for the protocol whatever the EtherType,
  only the first segment of a slot is decoded, and the sharded manager panics after two segments
  of one shred each have arrived in the wrong order.

  \<^bold>\<open>Not modelled.\<close> \<^verbatim>\<open>munmap\<close> when memory is dropped; log and debug output except where it is the result
  of a component; the formatting of \<^verbatim>\<open>print_stats\<close>; the layout of structs in memory beyond the byte formats
  parsed and written (the static assertion on the size of the event); relaxed memory orders, for
  which accesses to shared words are taken to be sequentially consistent; the test of the router,
  which reads the routes of the machine it runs on. The second copies of \<^verbatim>\<open>fifo_priority_bounds\<close> and
  \<^verbatim>\<open>set_current_thread_sched_fifo\<close> in \<^verbatim>\<open>tx_loop.rs\<close> and \<^verbatim>\<open>relay_loop.rs\<close> are those of \<^verbatim>\<open>rx_loop.rs\<close>.
\<close>

end
